theory Spec2Isabelle
  imports Main "HOL-Library.Word"
begin

unbundle bit_operations_syntax

section \<open>Capability flags (ArraysMacro.h)\<close>

text \<open>
  The flag macros are used both on the 32-bit register \<open>edx\<close> inside \<open>_cpuInfo\<close> and on
  the 64-bit \<open>jlong CpuInfo\<close> in the kernels, so each one is a word of any width.
\<close>

definition CPU_FPU :: "'a::len word" where "CPU_FPU = 1"
definition CPU_TSC :: "'a::len word" where "CPU_TSC = push_bit 4 1"
definition CPU_CMOV :: "'a::len word" where "CPU_CMOV = push_bit 15 1"
definition CPU_MMX :: "'a::len word" where "CPU_MMX = push_bit 23 1"
definition CPU_SSE :: "'a::len word" where "CPU_SSE = push_bit 25 1"
definition CPU_SSE2 :: "'a::len word" where "CPU_SSE2 = push_bit 26 1"
definition CPU_AMD :: "64 word" where "CPU_AMD = push_bit 59 1"
definition CPU_MMXEX :: "64 word" where "CPU_MMXEX = push_bit 60 1"
definition CPU_3DNOWEX :: "64 word" where "CPU_3DNOWEX = push_bit 62 1"
definition CPU_3DNOW :: "64 word" where "CPU_3DNOW = push_bit 63 1"

definition CPU_AMD_L :: "32 word" where "CPU_AMD_L = push_bit (59 - 32) 1"
definition CPU_3DNOWEX_L :: "32 word" where "CPU_3DNOWEX_L = push_bit (62 - 32) 1"
definition CPU_3DNOW_L :: "32 word" where "CPU_3DNOW_L = push_bit (63 - 32) 1"

definition CPU_L2SIZE_SHIFT :: nat where "CPU_L2SIZE_SHIFT = 32"
definition CPU_L2SIZE_UNIT :: nat where "CPU_L2SIZE_UNIT = 32 * 1024"
definition CPU_L2SIZE :: "'a::len word" where "CPU_L2SIZE = 1023"
definition CPU_L1DATASIZE_SHIFT :: nat where "CPU_L1DATASIZE_SHIFT = 42"
definition CPU_L1DATASIZE_UNIT :: nat where "CPU_L1DATASIZE_UNIT = 8 * 1024"
definition CPU_L1DATASIZE :: "'a::len word" where "CPU_L1DATASIZE = 255"
definition CPU_FAMILY_SHIFT :: nat where "CPU_FAMILY_SHIFT = 50"
definition CPU_FAMILY :: "'a::len word" where "CPU_FAMILY = 15"

section \<open>The capability prober \<open>_cpuInfo\<close> (ArraysFunctions.h)\<close>

text \<open>
  The host processor is a function from the \<open>cpuid\<close> leaf in \<open>eax\<close> to the four result
  registers \<open>(eax, ebx, ecx, edx)\<close>; \<open>None\<close> is an instruction that traps, which the
  source catches with \<open>catch (...)\<close>.  The local \<open>cpuid1regEAX\<close> has no initialiser and is
  read after the block also when the block left through \<open>jz _Exit\<close>; its indeterminate
  value is the field \<open>stack_garbage\<close> of the host.
\<close>

type_synonym cpuid_regs = "32 word \<times> 32 word \<times> 32 word \<times> 32 word"

record host =
  cpuid :: "32 word \<Rightarrow> cpuid_regs option"
  stack_garbage :: "32 word"

text \<open>
  The variables the assembler block reads and writes.  \<open>cpuInfoLast\<close> and
  \<open>maxArgForCpuId\<close> are statics; the block runs once per process, on their initial zeros.
\<close>

record probe_vars =
  cpuInfoLast :: "64 word"
  maxArgForCpuId :: "32 word"
  cpuid1regEAX :: "32 word"
  amdFeatures :: "32 word"
  l1d :: "32 word"
  l2 :: "32 word"
  cpuid2regs :: "32 word list"

definition probe_vars0 :: "host \<Rightarrow> probe_vars" where
  "probe_vars0 h = \<lparr>cpuInfoLast = 0, maxArgForCpuId = 0, cpuid1regEAX = stack_garbage h,
     amdFeatures = 0, l1d = 0, l2 = 0, cpuid2regs = [0, 0, 0, 0]\<rparr>"

text \<open>The three downgrade tests on \<open>edx\<close> after \<open>cpuid(1)\<close> (labels \<open>_FPU_Ok\<close>, \<open>_MMX_Ok\<close>, \<open>_SSE_Ok\<close>).\<close>

definition downgrade_edx :: "32 word \<Rightarrow> 32 word" where
  "downgrade_edx edx0 =
    (let edx1 = (if edx0 AND CPU_FPU \<noteq> 0 then edx0 else edx0 AND NOT CPU_CMOV);
         edx2 = (if edx1 AND CPU_MMX \<noteq> 0 then edx1 else edx1 AND NOT (CPU_SSE OR CPU_SSE2));
         edx3 = (if edx2 AND CPU_SSE \<noteq> 0 then edx2 else edx2 AND NOT CPU_SSE2)
     in edx3)"

text \<open>\<open>or edx,CPU_AMD_L\<close> and the test at \<open>_3DNOW_Ok\<close> after \<open>cpuid(0x80000001)\<close>.\<close>

definition downgrade_amd :: "32 word \<Rightarrow> 32 word" where
  "downgrade_amd edx0 =
    (let edx1 = edx0 OR CPU_AMD_L
     in if edx1 AND CPU_3DNOW_L \<noteq> 0 then edx1 else edx1 AND NOT CPU_3DNOWEX_L)"

text \<open>\<open>mov dword ptr cpuInfoLast,edx\<close> writes the low half of the 64-bit static.\<close>

definition set_low_dword :: "64 word \<Rightarrow> 32 word \<Rightarrow> 64 word" where
  "set_low_dword q d = (q AND NOT (mask 32)) OR ucast d"

text \<open>
  The \<open>__asm\<close> block of \<open>_cpuInfo\<close>, in three parts; \<open>None\<close> when one of its \<open>cpuid\<close>
  instructions traps.  From \<open>_NoAMD_K6IIIPLUS\<close> to \<open>_Exit\<close>:
\<close>

definition cpuid_leaf2 :: "host \<Rightarrow> probe_vars \<Rightarrow> probe_vars option" where
  "cpuid_leaf2 h s =
    (if maxArgForCpuId s < 2 then Some s
     else
      (case cpuid h 2 of None \<Rightarrow> None
       | Some (a2, b2, c2, d2) \<Rightarrow> Some (s\<lparr>cpuid2regs := [a2, b2, c2, d2]\<rparr>)))"

text \<open>From \<open>push eax\<close> to \<open>jmp _Exit\<close>; \<open>eaxE\<close> is the \<open>eax\<close> that \<open>cpuid(0x80000000)\<close> returned.\<close>

definition cpuid_extended :: "host \<Rightarrow> 32 word \<Rightarrow> probe_vars \<Rightarrow> probe_vars option" where
  "cpuid_extended h eaxE s =
    (case cpuid h 0x80000001 of None \<Rightarrow> None
     | Some (_, _, _, edxA) \<Rightarrow>
        (case cpuid h 0x80000005 of None \<Rightarrow> None
         | Some (_, _, ecx5, _) \<Rightarrow>
           let s1 = s\<lparr>amdFeatures := downgrade_amd edxA, l1d := drop_bit 24 ecx5\<rparr>
           in if eaxE < 0x80000006 then Some s1
              else
               (case cpuid h 0x80000006 of None \<Rightarrow> None
                | Some (_, _, ecx6, _) \<Rightarrow> Some (s1\<lparr>l2 := drop_bit 16 ecx6\<rparr>))))"

text \<open>The whole block, from \<open>pushad\<close> on.\<close>

definition cpuid_block :: "host \<Rightarrow> probe_vars \<Rightarrow> probe_vars option" where
  "cpuid_block h s =
    (case cpuid h 0 of None \<Rightarrow> None
     | Some (eax0, _, _, _) \<Rightarrow>
       if eax0 = 0 then Some s
       else
        (case cpuid h 1 of None \<Rightarrow> None
         | Some (eax1, _, _, edx1) \<Rightarrow>
           let s1 = s\<lparr>maxArgForCpuId := eax0, cpuid1regEAX := eax1,
                       cpuInfoLast := set_low_dword (cpuInfoLast s) (downgrade_edx edx1)\<rparr>
           in
            (case cpuid h 0x80000000 of None \<Rightarrow> None
             | Some (eaxE, _, _, _) \<Rightarrow>
               if eaxE < 0x80000005 then cpuid_leaf2 h s1 else cpuid_extended h eaxE s1)))"

text \<open>
  The cache-descriptor bytes of \<open>cpuid(2)\<close>: \<open>cpuid2info\<close> views the four registers as
  sixteen bytes, least significant first.
\<close>

definition reg_bytes :: "32 word \<Rightarrow> 8 word list" where
  "reg_bytes r = [ucast r, ucast (drop_bit 8 r), ucast (drop_bit 16 r), ucast (drop_bit 24 r)]"

definition cpuid2info :: "32 word list \<Rightarrow> 8 word list" where
  "cpuid2info rs = concat (map reg_bytes rs)"

text \<open>One pass of the \<open>switch (v>>4)\<close>; case 4 falls through to case 8 when \<open>cpuFamily \<le> 6\<close>.\<close>

definition descriptor_step :: "32 word \<Rightarrow> 8 word \<Rightarrow> 32 word \<times> 32 word \<Rightarrow> 32 word \<times> 32 word" where
  "descriptor_step cpuFamily v acc =
    (let vl = unat (v AND 0xF); hi = unat (drop_bit 4 v); d1 = fst acc; d2 = snd acc
     in if hi = 0 then
          (if vl = 10 then (d1 + 8, d2) else if vl = 12 then (d1 + 16, d2) else acc)
        else if hi = 4 \<and> 6 <s cpuFamily then acc
        else if hi = 4 \<or> hi = 8 then
          (if vl \<noteq> 0 then (d1, d2 + push_bit (vl - 1) 128) else acc)
        else if hi = 6 then
          (if 6 \<le> vl then (d1 + push_bit (vl - 6) 8, d2) else acc)
        else if hi = 7 then
          (if 8 \<le> vl then (d1, d2 + push_bit (vl - 8) 64) else acc)
        else acc)"

definition cpu_family :: "32 word \<Rightarrow> 32 word" where
  "cpu_family eax1 =
    (let f = drop_bit 8 eax1 AND 15
     in if f = 15 then drop_bit 20 eax1 AND 15 else f)"

text \<open>The C code after the \<open>try\<close> block, on the variables the block left.\<close>

definition pack_descriptor :: "probe_vars \<Rightarrow> 64 word" where
  "pack_descriptor s =
    (let c0 = cpuInfoLast s;
         c1 = (if c0 AND CPU_SSE \<noteq> 0 then c0 OR CPU_MMXEX else c0);
         cpuFamily = cpu_family (cpuid1regEAX s);
         c2 = c1 OR push_bit CPU_FAMILY_SHIFT (ucast (cpuFamily AND CPU_FAMILY));
         c3 = c2 OR push_bit 32 (ucast (amdFeatures s AND (CPU_AMD_L OR CPU_3DNOW_L OR CPU_3DNOWEX_L)));
         caches =
           (if amdFeatures s = 0 \<and> 2 \<le>s maxArgForCpuId s then
              fold (descriptor_step cpuFamily)
                (tl (cpuid2info (map (\<lambda>r. if r <s 0 then 0 else r) (cpuid2regs s))))
                (l1d s, l2 s)
            else (l1d s, l2 s));
         l1 = fst caches div of_nat (CPU_L1DATASIZE_UNIT div 1024);
         l2' = snd caches div of_nat (CPU_L2SIZE_UNIT div 1024);
         c4 = c3 OR push_bit CPU_L1DATASIZE_SHIFT (ucast (l1 AND CPU_L1DATASIZE));
         c5 = c4 OR push_bit CPU_L2SIZE_SHIFT (ucast (l2' AND CPU_L2SIZE))
     in c5)"

text \<open>
  The two statics that outlive a call, and \<open>_cpuInfo\<close> itself: the memoised value on every
  call but the first, 0 when the block trapped.
\<close>

record probe_state =
  cpuInfoCalculated :: bool
  cpuInfoMemo :: "64 word"

definition probe_state0 :: probe_state where
  "probe_state0 = \<lparr>cpuInfoCalculated = False, cpuInfoMemo = 0\<rparr>"

definition cpuInfo_fresh :: "host \<Rightarrow> 64 word" where
  "cpuInfo_fresh h =
    (case cpuid_block h (probe_vars0 h) of
       None \<Rightarrow> 0
     | Some s \<Rightarrow> pack_descriptor s)"

definition cpuInfo :: "host \<Rightarrow> probe_state \<Rightarrow> 64 word \<times> probe_state" where
  "cpuInfo h st =
    (if cpuInfoCalculated st then (cpuInfoMemo st, st)
     else (let d = cpuInfo_fresh h
           in (d, \<lparr>cpuInfoCalculated = True, cpuInfoMemo = d\<rparr>)))"

text \<open>
  A process calls \<open>_cpuInfo\<close> any number of times; \<open>cpuInfo_calls\<close> collects what the calls
  return, starting from the given statics (each call names the host it runs on).
\<close>

fun cpuInfo_calls :: "host list \<Rightarrow> probe_state \<Rightarrow> 64 word list" where
  "cpuInfo_calls [] st = []"
| "cpuInfo_calls (h # hs) st = fst (cpuInfo h st) # cpuInfo_calls hs (snd (cpuInfo h st))"

text \<open>No flag of a descriptor claims a capability whose prerequisite flag is absent.\<close>

definition downgrade_invariant :: "64 word \<Rightarrow> bool" where
  "downgrade_invariant d \<longleftrightarrow>
     (d AND CPU_CMOV \<noteq> 0 \<longrightarrow> d AND CPU_FPU \<noteq> 0) \<and>
     (d AND CPU_SSE \<noteq> 0 \<longrightarrow> d AND CPU_MMX \<noteq> 0) \<and>
     (d AND CPU_SSE2 \<noteq> 0 \<longrightarrow> d AND CPU_MMX \<noteq> 0) \<and>
     (d AND CPU_SSE2 \<noteq> 0 \<longrightarrow> d AND CPU_SSE \<noteq> 0) \<and>
     (d AND CPU_3DNOWEX \<noteq> 0 \<longrightarrow> d AND CPU_3DNOW \<noteq> 0)"

text \<open>
  Two hosts to run the prober on.  The first answers like a Pentium III: leaves 0 to 2, no
  extended leaves, the cache descriptors \<open>0x0C\<close> (16 KB of L1 data) and \<open>0x43\<close> (512 KB of
  L2), and a feature word with FPU, TSC, CMOV, MMX and SSE.  The second answers like an
  Athlon 64: SSE2 as well, and the extended leaves with 3DNow! and its extension, 64 KB of
  L1 data and 256 KB of L2.
\<close>

definition intel_host :: host where
  "intel_host =
    \<lparr>cpuid = (\<lambda>leaf.
        if leaf = 0 then Some (2, 0x756E6547, 0x6C65746E, 0x49656E69)
        else if leaf = 1 then Some (0x673, 0, 0, 0x0383F9FF)
        else if leaf = 2 then Some (0x03020101, 0, 0, 0x0C040843)
        else Some (0, 0, 0, 0)),
     stack_garbage = 0\<rparr>"

definition amd_host :: host where
  "amd_host =
    \<lparr>cpuid = (\<lambda>leaf.
        if leaf = 0 then Some (1, 0x68747541, 0x444D4163, 0x69746E65)
        else if leaf = 1 then Some (0x642, 0, 0, 0x0783F9FF)
        else if leaf = 0x80000000 then Some (0x80000006, 0, 0, 0)
        else if leaf = 0x80000001 then Some (0x742, 0, 0, 0xC1C3F9FF)
        else if leaf = 0x80000005 then Some (0, 0, 0x40020140, 0x40020140)
        else if leaf = 0x80000006 then Some (0, 0, 0x01004140, 0)
        else Some (0, 0, 0, 0)),
     stack_garbage = 0\<rparr>"


section \<open>Loop splitting (ArraysMacro.h)\<close>

text \<open>
  The \<open>jint\<close> variables of the two prefix macros are integers.  \<open>sizeof_pa\<close> is
  \<open>sizeof(*pa)\<close>, and \<open>pa\<close> the address the pointer holds.  The macros return the values of
  \<open>len\<close>, \<open>lenEnd\<close> (and \<open>lenStart\<close>) that the loops after them start from.
\<close>

definition LOOP_PREFIX :: "int \<Rightarrow> int \<Rightarrow> int \<Rightarrow> int \<times> int" where
  "LOOP_PREFIX UNLOOPING sizeof_pa Len =
    (let len = Len;
         lenEnd = len AND (UNLOOPING div sizeof_pa - 1);
         len = len div (UNLOOPING div sizeof_pa)
     in (len, lenEnd))"

definition LOOP_PREFIX_ALIGNED :: "int \<Rightarrow> int \<Rightarrow> int \<Rightarrow> int \<Rightarrow> int \<times> int \<times> int" where
  "LOOP_PREFIX_ALIGNED UNLOOPING sizeof_pa pa Len =
    (let len = Len;
         disp = pa AND 31;
         lenStart = 0;
         (lenStart, len) =
           (if disp \<noteq> 0 \<and> disp AND (sizeof_pa - 1) = 0 then
              (let lenStart = (32 - disp) div sizeof_pa
               in if len < lenStart then (0, len) else (lenStart, len - lenStart))
            else (lenStart, len));
         lenEnd = len AND (UNLOOPING div sizeof_pa - 1);
         len = len div (UNLOOPING div sizeof_pa)
     in if len > 0 then (lenStart, len - 1, lenEnd + UNLOOPING div sizeof_pa)
        else (lenStart, len, lenEnd))"

section \<open>Element types and comparisons\<close>

text \<open>
  An array element is its bit pattern, a word of the width of \<open>TYPE\<close>.  What \<open>*pa > *pb\<close>
  means depends on \<open>TYPE\<close>: two's complement for \<open>jbyte\<close>, \<open>jshort\<close>, \<open>jint\<close>, \<open>jlong\<close>,
  unsigned for \<open>unsigned __int16\<close>, IEEE 754 for \<open>jfloat\<close> and \<open>jdouble\<close>.

  IEEE 754 order on bit patterns: the top bit is the sign, the rest the magnitude; a
  pattern is a NaN when its magnitude is above that of infinity (exponent all ones,
  fraction zero); a comparison with a NaN is false; otherwise the values compare as the
  signed magnitudes do, so that \<open>-0 = +0\<close>.
\<close>

definition fp_fraction_bits :: "'a::len word \<Rightarrow> nat" where
  "fp_fraction_bits x = (if LENGTH('a) = 32 then 23 else 52)"

definition fp_abs :: "'a::len word \<Rightarrow> 'a word" where
  "fp_abs x = x AND mask (LENGTH('a) - 1)"

definition fp_infinity :: "'a::len word \<Rightarrow> 'a word" where
  "fp_infinity x = mask (LENGTH('a) - 1) AND NOT (mask (fp_fraction_bits x))"

definition fp_isnan :: "'a::len word \<Rightarrow> bool" where
  "fp_isnan x \<longleftrightarrow> fp_infinity x < fp_abs x"

definition fp_issnan :: "'a::len word \<Rightarrow> bool" where
  "fp_issnan x \<longleftrightarrow> fp_isnan x \<and> \<not> bit x (fp_fraction_bits x - 1)"

definition fp_iszero :: "'a::len word \<Rightarrow> bool" where
  "fp_iszero x \<longleftrightarrow> fp_abs x = 0"

definition fp_key :: "'a::len word \<Rightarrow> int" where
  "fp_key x = (if bit x (LENGTH('a) - 1) then - uint (fp_abs x) else uint (fp_abs x))"

definition fp_gt :: "'a::len word \<Rightarrow> 'a word \<Rightarrow> bool" where
  "fp_gt x y \<longleftrightarrow> \<not> fp_isnan x \<and> \<not> fp_isnan y \<and> fp_key y < fp_key x"

datatype c_type = SignedInt | UnsignedInt | Floating

definition c_greater :: "c_type \<Rightarrow> 'a::len word \<Rightarrow> 'a word \<Rightarrow> bool" where
  "c_greater T x y =
    (case T of SignedInt \<Rightarrow> y <s x | UnsignedInt \<Rightarrow> y < x | Floating \<Rightarrow> fp_gt x y)"

text \<open>The macro \<open>CMP\<close>: \<open>></\<close> in the min functions, \<open><\<close> in the max functions.\<close>

datatype cmp_op = CMP_GT | CMP_LT

definition c_cmp :: "c_type \<Rightarrow> cmp_op \<Rightarrow> 'a::len word \<Rightarrow> 'a word \<Rightarrow> bool" where
  "c_cmp T c x y = (case c of CMP_GT \<Rightarrow> c_greater T x y | CMP_LT \<Rightarrow> c_greater T y x)"


section \<open>32-bit arithmetic, assignments and the JNI prefix\<close>

text \<open>
  A \<open>jint\<close> is an integer here, and where the source can leave its range the wrap-around is
  written out: \<open>jint x\<close> is \<open>x\<close> as a 32-bit two's complement number, \<open>unsigned32 x\<close> is \<open>x\<close> as
  an unsigned 32-bit number (a \<open>size_t\<close>, or a \<open>jint\<close> moved into a register that the code then
  treats as a count), and \<open>c_div\<close> is the division of C, which rounds towards zero.
\<close>

definition jint :: "int \<Rightarrow> int" where
  "jint x = (x + 2 ^ 31) mod 2 ^ 32 - 2 ^ 31"

definition unsigned32 :: "int \<Rightarrow> int" where
  "unsigned32 x = x mod 2 ^ 32"

definition c_div :: "int \<Rightarrow> int \<Rightarrow> int" where
  "c_div x y = sgn x * sgn y * (\<bar>x\<bar> div \<bar>y\<bar>)"

text \<open>
  What an assignment \<open>*pa= V\<close> of \<open>TYPE\<close> leaves in \<open>*pa\<close>.  For an integer type it is \<open>V\<close>.  A
  \<open>jfloat\<close> or a \<open>jdouble\<close> travels through a register of the floating point unit, and the
  load into it turns a signalling NaN into the quiet NaN of the same payload (it sets the
  top bit of the fraction); every other value arrives as it was.
\<close>

definition fp_quiet :: "'a::len word \<Rightarrow> 'a word" where
  "fp_quiet x = (if fp_issnan x then x OR push_bit (fp_fraction_bits x - 1) 1 else x)"

definition c_assign :: "c_type \<Rightarrow> 'a::len word \<Rightarrow> 'a word" where
  "c_assign T V = (case T of Floating \<Rightarrow> fp_quiet V | _ \<Rightarrow> V)"

text \<open>
  \<open>SINGLE_PREFIX\<close> and \<open>PAIR_PREFIX\<close>: \<open>a\<close> and \<open>b\<close> are what \<open>GetPrimitiveArrayCritical\<close>
  returned for \<open>A\<close> and \<open>B\<close>, the address of the array or \<open>NULL\<close>.  On \<open>NULL\<close> the function throws
  \<open>OutOfMemoryError\<close> and skips its body.  Every address is readable and writable in the
  memory of this theory, so no access faults, and the handler \<open>catch (...)\<close> of
  \<open>PAIRBUFFER_POSTFIX\<close>, which such a fault would reach, is never entered.
\<close>

datatype jthrowable = OutOfMemoryError

definition SINGLE_PREFIX :: "nat \<Rightarrow> (nat \<Rightarrow> 'r) \<Rightarrow> jthrowable + 'r" where
  "SINGLE_PREFIX a body = (if a = 0 then Inl OutOfMemoryError else Inr (body a))"

definition PAIR_PREFIX :: "nat \<Rightarrow> nat \<Rightarrow> (nat \<Rightarrow> nat \<Rightarrow> 'r) \<Rightarrow> jthrowable + 'r" where
  "PAIR_PREFIX a b body =
    (if a = 0 then Inl OutOfMemoryError
     else if b = 0 then Inl OutOfMemoryError
     else Inr (body a b))"

text \<open>The branch a kernel takes.\<close>

datatype branch = Scalar_branch | MMX_branch | MMXEX_branch | SSE_branch | CMOV_branch


section \<open>The C loops of the min and max kernels\<close>

text \<open>
  The min and max kernels read and write whole elements of \<open>TYPE\<close>, at the addresses
  \<open>a + i*sizeof(TYPE)\<close> and \<open>b + j*sizeof(TYPE)\<close>.  Their memory is a map from the address of an
  element to the element: \<open>a\<close> and \<open>b\<close> are the addresses of one array, when the caller
  passes it twice, or of two arrays that do not overlap, so two elements are the same
  element or share no byte.  \<open>cmp_assign\<close> is the statement \<open>if (*pa CMP *pb) *pa= *pb;\<close>.
\<close>

type_synonym 'e store = "nat \<Rightarrow> 'e"

definition cmp_assign :: "c_type \<Rightarrow> cmp_op \<Rightarrow> 'a::len word store \<Rightarrow> nat \<Rightarrow> nat \<Rightarrow> 'a word store" where
  "cmp_assign T c m pa pb = (if c_cmp T c (m pa) (m pb) then m(pa := c_assign T (m pb)) else m)"

text \<open>\<open>for (; n>0; n--,pa++,pb++) if (*pa CMP *pb) *pa= *pb;\<close> with \<open>sz = sizeof(TYPE)\<close>.\<close>

fun scalar_loop ::
  "c_type \<Rightarrow> cmp_op \<Rightarrow> nat \<Rightarrow> nat \<Rightarrow> 'a::len word store \<Rightarrow> nat \<Rightarrow> nat \<Rightarrow> 'a word store" where
  "scalar_loop T c sz 0 m pa pb = m"
| "scalar_loop T c sz (Suc n) m pa pb =
     scalar_loop T c sz n (cmp_assign T c m pa pb) (pa + sz) (pb + sz)"

text \<open>The 32 statements \<open>if (pa[k] CMP pb[k]) pa[k]= pb[k];\<close> of one pass of the unrolled loop.\<close>

definition unrolled32 ::
  "c_type \<Rightarrow> cmp_op \<Rightarrow> nat \<Rightarrow> 'a::len word store \<Rightarrow> nat \<Rightarrow> nat \<Rightarrow> 'a word store" where
  "unrolled32 T c sz m pa pb =
     fold (\<lambda>k m. cmp_assign T c m (pa + k * sz) (pb + k * sz)) [0..<32] m"

fun unrolled_loop ::
  "c_type \<Rightarrow> cmp_op \<Rightarrow> nat \<Rightarrow> nat \<Rightarrow> 'a::len word store \<Rightarrow> nat \<Rightarrow> nat \<Rightarrow> 'a word store" where
  "unrolled_loop T c sz 0 m pa pb = m"
| "unrolled_loop T c sz (Suc n) m pa pb =
     unrolled_loop T c sz n (unrolled32 T c sz m pa pb) (pa + 32 * sz) (pb + 32 * sz)"

text \<open>
  \<open>MINBODY_LOOP(TYPE)\<close> and \<open>MAXBODY_LOOP(TYPE)\<close> differ in the comparison only; \<open>BODY_LOOP\<close>
  is their common text, with the comparison as parameter.  \<open>a\<close> and \<open>b\<close> are addresses,
  \<open>Aofs\<close>, \<open>Bofs\<close> and \<open>Len\<close> the \<open>jint\<close> arguments.
\<close>

definition BODY_LOOP ::
  "c_type \<Rightarrow> cmp_op \<Rightarrow> nat \<Rightarrow> int \<Rightarrow> nat \<Rightarrow> int \<Rightarrow> int \<Rightarrow> 'a::len word store \<Rightarrow> 'a word store" where
  "BODY_LOOP T c a Aofs b Bofs Len m =
    (let sz = LENGTH('a) div 8;
         pa = nat (int a + Aofs * int sz); pb = nat (int b + Bofs * int sz);
         (len, lenEnd) = LOOP_PREFIX (32 * int sz) (int sz) Len;
         m = unrolled_loop T c sz (nat len) m pa pb;
         pa = pa + 32 * sz * nat len; pb = pb + 32 * sz * nat len
     in scalar_loop T c sz (nat lenEnd) m pa pb)"



section \<open>The vectorised branches of the min and max kernels\<close>

text \<open>
  A packed instruction acts on every lane of its register alike, and in every use below
  the lane is as wide as \<open>TYPE\<close>.  So a register is the list of the elements it holds, a
  load takes consecutive elements from memory, a store puts them back, and the
  instructions between them are given for one lane.
\<close>

definition load_lanes :: "'e store \<Rightarrow> nat \<Rightarrow> nat \<Rightarrow> nat \<Rightarrow> 'e list" where
  "load_lanes m p sz k = map (\<lambda>j. m (p + j * sz)) [0..<k]"

definition store_lanes :: "'e store \<Rightarrow> nat \<Rightarrow> nat \<Rightarrow> 'e list \<Rightarrow> 'e store" where
  "store_lanes m p sz v = fold (\<lambda>j m. m(p + j * sz := v ! j)) [0..<length v] m"

text \<open>
  A pass of an assembler loop is a sequence of groups: a group loads \<open>k\<close> elements from
  \<open>[eax]\<close> and \<open>k\<close> from \<open>[edx]\<close>, combines them lane by lane with \<open>f\<close>, and stores \<open>k\<close> elements to
  \<open>[eax]\<close>, all its loads before its first store.  A pass has \<open>G\<close> groups, one after the
  other, and the loop makes \<open>ecx\<close> passes.
\<close>

definition packed_group ::
  "('e \<Rightarrow> 'e \<Rightarrow> 'e) \<Rightarrow> nat \<Rightarrow> nat \<Rightarrow> 'e store \<Rightarrow> nat \<Rightarrow> nat \<Rightarrow> 'e store" where
  "packed_group f k sz m eax edx =
     store_lanes m eax sz (map2 f (load_lanes m eax sz k) (load_lanes m edx sz k))"

definition packed_pass ::
  "('e \<Rightarrow> 'e \<Rightarrow> 'e) \<Rightarrow> nat \<Rightarrow> nat \<Rightarrow> nat \<Rightarrow> 'e store \<Rightarrow> nat \<Rightarrow> nat \<Rightarrow> 'e store" where
  "packed_pass f k G sz m eax edx =
     fold (\<lambda>g m. packed_group f k sz m (eax + g * (k * sz)) (edx + g * (k * sz))) [0..<G] m"

fun packed_loop ::
  "('e \<Rightarrow> 'e \<Rightarrow> 'e) \<Rightarrow> nat \<Rightarrow> nat \<Rightarrow> nat \<Rightarrow> nat \<Rightarrow> 'e store \<Rightarrow> nat \<Rightarrow> nat \<Rightarrow> 'e store" where
  "packed_loop f k G sz 0 m eax edx = m"
| "packed_loop f k G sz (Suc ecx) m eax edx =
     packed_loop f k G sz ecx (packed_pass f k G sz m eax edx)
       (eax + G * (k * sz)) (edx + G * (k * sz))"

text \<open>
  Every vectorised branch has the same parts: \<open>pa\<close> and \<open>pb\<close>, \<open>LOOP_PREFIX_ALIGNED(UNLOOPING)\<close>
  on the address in \<open>pa\<close>, the C loop over \<open>lenStart\<close> elements, the assembler loop of \<open>len\<close>
  passes over \<open>UNLOOPING\<close> bytes each, in groups of \<open>GROUP\<close> bytes, and the C loop over \<open>lenEnd\<close>
  elements.  \<open>len\<close> goes into \<open>ecx\<close>, which \<open>jecxz\<close> and \<open>dec ecx; jnz\<close> read as an unsigned
  number.
\<close>

definition aligned_branch ::
  "c_type \<Rightarrow> cmp_op \<Rightarrow> ('a::len word \<Rightarrow> 'a word \<Rightarrow> 'a word) \<Rightarrow> nat \<Rightarrow> nat \<Rightarrow>
     nat \<Rightarrow> int \<Rightarrow> nat \<Rightarrow> int \<Rightarrow> int \<Rightarrow> 'a word store \<Rightarrow> 'a word store" where
  "aligned_branch T c f UNLOOPING GROUP a Aofs b Bofs Len m =
    (let sz = LENGTH('a) div 8;
         pa = nat (int a + Aofs * int sz); pb = nat (int b + Bofs * int sz);
         (lenStart, len, lenEnd) = LOOP_PREFIX_ALIGNED (int UNLOOPING) (int sz) (int pa) Len;
         m = scalar_loop T c sz (nat lenStart) m pa pb;
         pa = pa + sz * nat lenStart; pb = pb + sz * nat lenStart;
         ecx = nat (unsigned32 len);
         m = packed_loop f (GROUP div sz) (UNLOOPING div GROUP) sz ecx m pa pb;
         pa = pa + UNLOOPING * ecx; pb = pb + UNLOOPING * ecx
     in scalar_loop T c sz (nat lenEnd) m pa pb)"

subsection \<open>Arrays_minmax_int.h\<close>

text \<open>The instructions, on one lane.  \<open>pandn\<close> complements its destination operand.\<close>

definition pcmpgt :: "'a::len word \<Rightarrow> 'a word \<Rightarrow> 'a word" where
  "pcmpgt dst src = (if src <s dst then - 1 else 0)"

definition pand :: "'a::len word \<Rightarrow> 'a word \<Rightarrow> 'a word" where
  "pand dst src = dst AND src"

definition pandn :: "'a::len word \<Rightarrow> 'a word \<Rightarrow> 'a word" where
  "pandn dst src = NOT dst AND src"

definition por :: "'a::len word \<Rightarrow> 'a word \<Rightarrow> 'a word" where
  "por dst src = dst OR src"

definition pxor :: "'a::len word \<Rightarrow> 'a word \<Rightarrow> 'a word" where
  "pxor dst src = dst XOR src"

datatype packed_minmax = pminub | pmaxub | pminsw | pmaxsw

definition packed_minmax :: "packed_minmax \<Rightarrow> 'a::len word \<Rightarrow> 'a word \<Rightarrow> 'a word" where
  "packed_minmax i dst src =
    (case i of
       pminub \<Rightarrow> (if src < dst then src else dst)
     | pmaxub \<Rightarrow> (if dst < src then src else dst)
     | pminsw \<Rightarrow> (if src <s dst then src else dst)
     | pmaxsw \<Rightarrow> (if dst <s src then src else dst))"

definition packed_minmax_bits :: "packed_minmax \<Rightarrow> nat" where
  "packed_minmax_bits i = (case i of pminub \<Rightarrow> 8 | pmaxub \<Rightarrow> 8 | pminsw \<Rightarrow> 16 | pmaxsw \<Rightarrow> 16)"

datatype pcmpgt_insn = pcmpgtb | pcmpgtw | pcmpgtd

definition pcmpgt_bits :: "pcmpgt_insn \<Rightarrow> nat" where
  "pcmpgt_bits i = (case i of pcmpgtb \<Rightarrow> 8 | pcmpgtw \<Rightarrow> 16 | pcmpgtd \<Rightarrow> 32)"

datatype mmx_reg = MM0 | MM1

text \<open>
  The macros that ArraysNative.cpp defines before it includes the header; \<open>None\<close> is a
  macro left undefined.  The two bit masks are given by the lane of the 64-bit constant
  (\<open>0x80\<close> for \<open>0x8080808080808080\<close>, \<open>0x8000\<close> for \<open>0x8000800080008000\<close>).  \<open>MINMAX_SSE2\<close> is
  defined nowhere, so the branch under \<open>#ifdef MINMAX_SSE2\<close> is not compiled.
\<close>

record 'w minmax_macros =
  TYPE_kind :: c_type
  CMP :: cmp_op
  BIT_MASK_SSE :: "'w option"
  MINMAX_MMXEX :: "packed_minmax option"
  BIT_MASK_MMX :: "'w option"
  PCMPGT :: pcmpgt_insn
  MM0_FOR_MIN :: mmx_reg
  MM1_FOR_MIN :: mmx_reg

text \<open>One quadword group of \<open>_LoopSSE\<close>, with and without \<open>BIT_MASK_SSE\<close>.\<close>

definition mmxex_lane :: "packed_minmax \<Rightarrow> 'a::len word option \<Rightarrow> 'a word \<Rightarrow> 'a word \<Rightarrow> 'a word" where
  "mmxex_lane i bitMask x y =
    (case bitMask of
       Some mm7 \<Rightarrow>
         (let mm0 = x; mm0 = pxor mm0 mm7;
              mm2 = y; mm2 = pxor mm2 mm7;
              mm0 = packed_minmax i mm0 mm2;
              mm0 = pxor mm0 mm7
          in mm0)
     | None \<Rightarrow> (let mm0 = x; mm0 = packed_minmax i mm0 y in mm0))"

text \<open>One quadword group of \<open>_LoopMMX\<close>, with and without \<open>BIT_MASK_MMX\<close>.\<close>

definition mmx_lane :: "'a::len word minmax_macros \<Rightarrow> 'a word \<Rightarrow> 'a word \<Rightarrow> 'a word" where
  "mmx_lane M x y =
    (let mm0 = x; mm1 = y;
         mm2 = (case MM0_FOR_MIN M of MM0 \<Rightarrow> mm0 | MM1 \<Rightarrow> mm1);
         mm2 =
           (case BIT_MASK_MMX M of
              Some mm7 \<Rightarrow>
                (let mm2 = pxor mm2 mm7;
                     mm3 = (case MM1_FOR_MIN M of MM0 \<Rightarrow> mm0 | MM1 \<Rightarrow> mm1);
                     mm3 = pxor mm3 mm7
                 in pcmpgt mm2 mm3)
            | None \<Rightarrow> pcmpgt mm2 (case MM1_FOR_MIN M of MM0 \<Rightarrow> mm0 | MM1 \<Rightarrow> mm1));
         mm1 = pand mm1 mm2;
         mm2 = pandn mm2 mm0;
         mm1 = por mm1 mm2
     in mm1)"

text \<open>
  The header: the \<open>CPU_MMXEX\<close> branch when \<open>MINMAX_MMXEX\<close> is defined, the \<open>CPU_MMX\<close>
  branch, and \<open>C_LOOP\<close>.  With \<open>BIT_MASK_SSE\<close> a pass of \<open>_LoopSSE\<close> is two groups of 16 bytes
  in 32, without it one group of 64 bytes; a pass of \<open>_LoopMMX\<close> is four groups of 8 bytes.
  The result is the branch taken and the memory after it.
\<close>

definition Arrays_minmax_int ::
  "'a::len word minmax_macros \<Rightarrow> 64 word \<Rightarrow> nat \<Rightarrow> int \<Rightarrow> nat \<Rightarrow> int \<Rightarrow> int \<Rightarrow> 'a word store \<Rightarrow>
     branch \<times> 'a word store" where
  "Arrays_minmax_int M CpuInfo a Aofs b Bofs Len m =
    (if MINMAX_MMXEX M \<noteq> None \<and> CpuInfo AND CPU_MMXEX \<noteq> 0 then
       (MMXEX_branch,
        if BIT_MASK_SSE M \<noteq> None
        then aligned_branch (TYPE_kind M) (CMP M) (mmxex_lane (the (MINMAX_MMXEX M)) (BIT_MASK_SSE M))
               32 16 a Aofs b Bofs Len m
        else aligned_branch (TYPE_kind M) (CMP M) (mmxex_lane (the (MINMAX_MMXEX M)) (BIT_MASK_SSE M))
               64 64 a Aofs b Bofs Len m)
     else if CpuInfo AND CPU_MMX \<noteq> 0 then
       (MMX_branch, aligned_branch (TYPE_kind M) (CMP M) (mmx_lane M) 32 8 a Aofs b Bofs Len m)
     else
       (Scalar_branch, BODY_LOOP (TYPE_kind M) (CMP M) a Aofs b Bofs Len m))"

text \<open>The macro sets of ArraysNative.cpp, by the function that defines them.\<close>

definition min_jbyte :: "8 word minmax_macros" where
  "min_jbyte = \<lparr>TYPE_kind = SignedInt, CMP = CMP_GT, BIT_MASK_SSE = Some 0x80,
     MINMAX_MMXEX = Some pminub, BIT_MASK_MMX = None, PCMPGT = pcmpgtb,
     MM0_FOR_MIN = MM0, MM1_FOR_MIN = MM1\<rparr>"

definition max_jbyte :: "8 word minmax_macros" where
  "max_jbyte = \<lparr>TYPE_kind = SignedInt, CMP = CMP_LT, BIT_MASK_SSE = Some 0x80,
     MINMAX_MMXEX = Some pmaxub, BIT_MASK_MMX = None, PCMPGT = pcmpgtb,
     MM0_FOR_MIN = MM1, MM1_FOR_MIN = MM0\<rparr>"

definition min_jshort :: "16 word minmax_macros" where
  "min_jshort = \<lparr>TYPE_kind = SignedInt, CMP = CMP_GT, BIT_MASK_SSE = None,
     MINMAX_MMXEX = Some pminsw, BIT_MASK_MMX = None, PCMPGT = pcmpgtw,
     MM0_FOR_MIN = MM0, MM1_FOR_MIN = MM1\<rparr>"

definition max_jshort :: "16 word minmax_macros" where
  "max_jshort = \<lparr>TYPE_kind = SignedInt, CMP = CMP_LT, BIT_MASK_SSE = None,
     MINMAX_MMXEX = Some pmaxsw, BIT_MASK_MMX = None, PCMPGT = pcmpgtw,
     MM0_FOR_MIN = MM1, MM1_FOR_MIN = MM0\<rparr>"

definition min_jint :: "32 word minmax_macros" where
  "min_jint = \<lparr>TYPE_kind = SignedInt, CMP = CMP_GT, BIT_MASK_SSE = None,
     MINMAX_MMXEX = None, BIT_MASK_MMX = None, PCMPGT = pcmpgtd,
     MM0_FOR_MIN = MM0, MM1_FOR_MIN = MM1\<rparr>"

definition max_jint :: "32 word minmax_macros" where
  "max_jint = \<lparr>TYPE_kind = SignedInt, CMP = CMP_LT, BIT_MASK_SSE = None,
     MINMAX_MMXEX = None, BIT_MASK_MMX = None, PCMPGT = pcmpgtd,
     MM0_FOR_MIN = MM1, MM1_FOR_MIN = MM0\<rparr>"

definition minu_short :: "16 word minmax_macros" where
  "minu_short = \<lparr>TYPE_kind = UnsignedInt, CMP = CMP_GT, BIT_MASK_SSE = Some 0x8000,
     MINMAX_MMXEX = Some pminsw, BIT_MASK_MMX = Some 0x8000, PCMPGT = pcmpgtw,
     MM0_FOR_MIN = MM0, MM1_FOR_MIN = MM1\<rparr>"

definition maxu_short :: "16 word minmax_macros" where
  "maxu_short = \<lparr>TYPE_kind = UnsignedInt, CMP = CMP_LT, BIT_MASK_SSE = Some 0x8000,
     MINMAX_MMXEX = Some pmaxsw, BIT_MASK_MMX = Some 0x8000, PCMPGT = pcmpgtw,
     MM0_FOR_MIN = MM1, MM1_FOR_MIN = MM0\<rparr>"

subsection \<open>Arrays_minmax_float.h\<close>

text \<open>
  \<open>minps\<close> and \<open>maxps\<close> on one lane: the source operand when both operands are zeros or
  one of them is a NaN, otherwise the smaller (larger) operand.  The aligned loop
  (\<open>movaps\<close>) and the unaligned one (\<open>movups\<close>) compute the same lanes.
\<close>

datatype sse_minmax = minps | maxps

definition sse_minmax :: "sse_minmax \<Rightarrow> 32 word \<Rightarrow> 32 word \<Rightarrow> 32 word" where
  "sse_minmax i dst src =
    (if (fp_iszero dst \<and> fp_iszero src) \<or> fp_isnan dst \<or> fp_isnan src then src
     else (case i of
             minps \<Rightarrow> (if fp_gt src dst then dst else src)
           | maxps \<Rightarrow> (if fp_gt dst src then dst else src)))"



subsection \<open>Arrays_minmax_double.h\<close>

text \<open>
  The x87 sequence for one element.  \<open>fld qword ptr\<close> turns a signalling NaN into the
  quiet NaN of the same payload and loads every other double exactly, and \<open>fstp qword ptr\<close>
  stores what was loaded exactly, so a register is the double it holds.  After
  \<open>fld [eax]; fld [edx]\<close> the element of \<open>a\<close> is in \<open>st(1)\<close> and that of \<open>b\<close> in \<open>st(0)\<close>;
  \<open>fucomi st(0),st(1)\<close> sets the carry flag when \<open>st(0) < st(1)\<close> or the two are unordered;
  \<open>fcmovnb\<close> moves \<open>st(1)\<close> to \<open>st(0)\<close> when the carry flag is clear, \<open>fcmovb\<close> when it is set;
  \<open>fstp [eax]\<close> stores \<open>st(0)\<close>.
\<close>

definition fld_qword :: "64 word \<Rightarrow> 64 word" where
  "fld_qword x = (if fp_issnan x then x OR push_bit 51 1 else x)"

datatype fcmov = fcmovnb | fcmovb

definition x87_minmax :: "fcmov \<Rightarrow> 64 word \<Rightarrow> 64 word \<Rightarrow> 64 word" where
  "x87_minmax FCMOV x y =
    (let st1 = fld_qword x;
         st0 = fld_qword y;
         CF = (fp_isnan st0 \<or> fp_isnan st1 \<or> fp_gt st1 st0);
         st0 = (case FCMOV of
                  fcmovnb \<Rightarrow> (if \<not> CF then st1 else st0)
                | fcmovb \<Rightarrow> (if CF then st1 else st0))
     in st0)"



section \<open>The functions min, max, minu and maxu (ArraysNative.cpp)\<close>

text \<open>
  Each function is \<open>PAIR_PREFIX\<close>, its macros and header, and \<open>PAIR_POSTFIX\<close>, which releases
  the arrays: what the body wrote to memory is what the caller finds there.  The \<open>min\<close>
  functions define \<open>CMP\<close> as \<open>></\<close> and the \<open>max\<close> functions as \<open><\<close>; \<open>c\<close> says which of the two a
  call is.  The functions on \<open>jlong\<close> arrays are the C loop alone, whatever \<open>CpuInfo\<close> is;
  the functions on \<open>jfloat\<close> arrays define \<open>MINMAX_SSE\<close> as \<open>minps\<close> and \<open>maxps\<close>, those on \<open>jdouble\<close>
  arrays \<open>FCMOV\<close> as \<open>fcmovnb\<close> and \<open>fcmovb\<close>.  The result is the exception thrown, or the
  branch taken and the memory after the call.
\<close>

definition minmax_int ::
  "'a::len word minmax_macros \<Rightarrow> 64 word \<Rightarrow> nat \<Rightarrow> int \<Rightarrow> nat \<Rightarrow> int \<Rightarrow> int \<Rightarrow> 'a word store \<Rightarrow>
     jthrowable + branch \<times> 'a word store" where
  "minmax_int M CpuInfo a Aofs b Bofs Len m =
     PAIR_PREFIX a b (\<lambda>a b. Arrays_minmax_int M CpuInfo a Aofs b Bofs Len m)"




text \<open>
  The element-wise minimum or maximum of two integers of type \<open>T\<close>, and of two floating
  point numbers that are not NaN: the operand that is not greater (not less) than the
  other one in the order of \<open>T\<close>.
\<close>

definition int_minmax :: "c_type \<Rightarrow> cmp_op \<Rightarrow> 'a::len word \<Rightarrow> 'a word \<Rightarrow> 'a word" where
  "int_minmax T c x y =
    (case (T, c) of
       (SignedInt, CMP_GT) \<Rightarrow> (if sint y < sint x then y else x)
     | (SignedInt, CMP_LT) \<Rightarrow> (if sint x < sint y then y else x)
     | (_, CMP_GT) \<Rightarrow> (if uint y < uint x then y else x)
     | (_, CMP_LT) \<Rightarrow> (if uint x < uint y then y else x))"

definition fp_is_minmax :: "cmp_op \<Rightarrow> 'a::len word \<Rightarrow> 'a word \<Rightarrow> 'a word \<Rightarrow> bool" where
  "fp_is_minmax c x y r \<longleftrightarrow>
     (r = x \<or> r = y) \<and>
     fp_key r = (case c of CMP_GT \<Rightarrow> min (fp_key x) (fp_key y) | CMP_LT \<Rightarrow> max (fp_key x) (fp_key y))"

text \<open>The macro sets by element width, as ArraysNative.cpp instantiates the header.\<close>

definition byte_kernels :: "8 word minmax_macros list" where
  "byte_kernels = [min_jbyte, max_jbyte]"

definition short_kernels :: "16 word minmax_macros list" where
  "short_kernels = [min_jshort, max_jshort, minu_short, maxu_short]"

definition int_kernels :: "32 word minmax_macros list" where
  "int_kernels = [min_jint, max_jint]"

section \<open>Byte memory: fill and copyBytes\<close>

text \<open>
  \<open>fill\<close> writes its vector part byte by byte and \<open>copyBytes\<close> may be called with source
  and destination in one array, so these two work on the memory of the process, a
  function from addresses to bytes.  A pointer is the address it holds.
\<close>

type_synonym mem = "nat \<Rightarrow> 8 word"

definition load_bytes :: "mem \<Rightarrow> nat \<Rightarrow> nat \<Rightarrow> 8 word list" where
  "load_bytes m p n = map (\<lambda>k. m (p + k)) [0..<n]"

definition store_bytes :: "mem \<Rightarrow> nat \<Rightarrow> 8 word list \<Rightarrow> mem" where
  "store_bytes m p bs = (\<lambda>x. if p \<le> x \<and> x < p + length bs then bs ! (x - p) else m x)"

text \<open>
  The 16-byte stores.  \<open>movaps\<close> and \<open>movntps\<close> need a 16-byte aligned address, which the
  code before them establishes, \<open>movups\<close> does not; \<open>movntps\<close> bypasses the cache.  All
  three write the same 16 bytes.
\<close>

datatype store_insn = movaps | movups | movntps

definition store16 :: "store_insn \<Rightarrow> mem \<Rightarrow> nat \<Rightarrow> 8 word list \<Rightarrow> mem" where
  "store16 i m p xmm = store_bytes m p (take 16 xmm)"

text \<open>
  The effective cache size, as both kernels compute it: the L2 field of the descriptor
  times its unit, and 65536 when that is less.  (\<open>CpuInfo>>CPU_L2SIZE_SHIFT\<close> is an
  arithmetic shift of a \<open>jlong\<close>; the mask keeps bits that the logical shift has too.)
\<close>

definition cacheSize :: "64 word \<Rightarrow> nat" where
  "cacheSize CpuInfo =
    (let cacheSize = unat (drop_bit CPU_L2SIZE_SHIFT CpuInfo AND CPU_L2SIZE) * CPU_L2SIZE_UNIT
     in if cacheSize < 65536 then 65536 else cacheSize)"

subsection \<open>Elements in byte memory\<close>

text \<open>
  An element of \<open>TYPE\<close> is a word of its width, and lies in memory least significant byte
  first.
\<close>

definition sizeof :: "'a::len word \<Rightarrow> nat" where
  "sizeof V = LENGTH('a) div 8"

definition to_bytes :: "'a::len word \<Rightarrow> 8 word list" where
  "to_bytes V = map (\<lambda>k. ucast (drop_bit (8 * k) V)) [0..<LENGTH('a) div 8]"

definition of_bytes :: "8 word list \<Rightarrow> 'a::len word" where
  "of_bytes bs = foldr (\<lambda>b w. ucast b OR push_bit 8 w) bs 0"

definition load_elem :: "mem \<Rightarrow> nat \<Rightarrow> 'a::len word" where
  "load_elem m p = of_bytes (load_bytes m p (LENGTH('a) div 8))"

subsection \<open>Arrays_fill.h\<close>

text \<open>\<open>rep movsb\<close> from the local array \<open>filler\<close> (index \<open>esi\<close>) to memory at \<open>edi\<close>, \<open>ecx\<close> bytes.\<close>

fun rep_movsb_filler :: "8 word list \<Rightarrow> nat \<Rightarrow> nat \<Rightarrow> nat \<Rightarrow> mem \<Rightarrow> mem" where
  "rep_movsb_filler filler esi edi 0 m = m"
| "rep_movsb_filler filler esi edi (Suc ecx) m =
     rep_movsb_filler filler (esi + 1) (edi + 1) ecx (m(edi := filler ! esi))"

text \<open>The loops \<open>_Loop_ntps\<close> and \<open>_Loop\<close>: eight stores of \<open>xmm0\<close> per pass, \<open>ecx\<close> passes.\<close>

definition fill_pass128 :: "store_insn \<Rightarrow> 8 word list \<Rightarrow> nat \<Rightarrow> mem \<Rightarrow> mem" where
  "fill_pass128 i xmm0 edi m = fold (\<lambda>k m. store16 i m (edi + 16 * k) xmm0) [0..<8] m"

fun fill_loop128 :: "store_insn \<Rightarrow> 8 word list \<Rightarrow> nat \<Rightarrow> nat \<Rightarrow> mem \<Rightarrow> mem" where
  "fill_loop128 i xmm0 0 edi m = m"
| "fill_loop128 i xmm0 (Suc ecx) edi m = fill_loop128 i xmm0 ecx (edi + 128) (fill_pass128 i xmm0 edi m)"

text \<open>The loop \<open>_Loop2\<close>: one \<open>movaps\<close> per pass.\<close>

fun fill_loop16 :: "8 word list \<Rightarrow> nat \<Rightarrow> nat \<Rightarrow> mem \<Rightarrow> mem" where
  "fill_loop16 xmm0 0 edi m = m"
| "fill_loop16 xmm0 (Suc ecx) edi m = fill_loop16 xmm0 ecx (edi + 16) (store16 movaps m edi xmm0)"

text \<open>
  The choice at \<open>cmp ecx,cacheSizeIn128ByteBlocks; jb _Loop\<close>: the store instruction of the
  128-byte loop, \<open>None\<close> when \<open>ecx\<close> is 0 and the loop is skipped.
\<close>

definition fill_store_choice :: "64 word \<Rightarrow> nat \<Rightarrow> store_insn option" where
  "fill_store_choice CpuInfo ecx =
    (let cacheSizeIn128ByteBlocks = cacheSize CpuInfo div 128
     in if ecx = 0 then None
        else if ecx < cacheSizeIn128ByteBlocks then Some movaps
        else Some movntps)"

text \<open>
  The SSE branch; \<open>pa\<close> is the address of \<open>a[BeginIndex]\<close>.  \<open>filler\<close> holds \<open>32/sizeof(TYPE)\<close>
  copies of what the assignment \<open>((TYPE*)filler)[j]= V\<close> stores.  \<open>len\<close> is a \<open>jint\<close>; the counts
  that go into \<open>ecx\<close> are read there as unsigned numbers (\<open>shr\<close>, \<open>and\<close>, \<open>rep\<close>, \<open>dec; jnz\<close>).
\<close>

definition fill_sse :: "c_type \<Rightarrow> 64 word \<Rightarrow> 'a::len word \<Rightarrow> nat \<Rightarrow> int \<Rightarrow> mem \<Rightarrow> mem" where
  "fill_sse T CpuInfo V pa Len m =
    (let sizeof_TYPE = sizeof V;
         filler = concat (replicate (32 div sizeof_TYPE) (to_bytes (c_assign T V)));
         fillerDisp = 0;
         len = jint (Len * int sizeof_TYPE);
         disp = pa AND 31;
         lenStart = 0;
         (lenStart, fillerDisp, len) =
           (if disp \<noteq> 0 then (32 - disp, (32 - disp) AND 15, jint (len - int (32 - disp)))
            else (lenStart, fillerDisp, len));
         lenEnd = len AND 15;
         len = c_div len 16;
         m = rep_movsb_filler filler 0 pa lenStart m;
         edi = pa + lenStart;
         xmm0 = take 16 (drop fillerDisp filler);
         ecx = nat (drop_bit 3 (unsigned32 len));
         m = (case fill_store_choice CpuInfo ecx of
                None \<Rightarrow> m
              | Some i \<Rightarrow> fill_loop128 i xmm0 ecx edi m);
         edi = edi + 128 * ecx;
         ecx = nat (unsigned32 len AND 7);
         m = fill_loop16 xmm0 ecx edi m;
         edi = edi + 16 * ecx
     in rep_movsb_filler filler fillerDisp edi (nat lenEnd) m)"

text \<open>
  The C branch: \<open>memset\<close> for one-byte types, which takes \<open>Len\<close> as a \<open>size_t\<close>, else the loop
  unrolled eight times; each \<open>pa[k]= V\<close> stores the bytes of what the assignment leaves.
\<close>

definition memset :: "mem \<Rightarrow> nat \<Rightarrow> 8 word \<Rightarrow> nat \<Rightarrow> mem" where
  "memset m p c n = store_bytes m p (replicate n c)"

fun store_loop :: "8 word list \<Rightarrow> nat \<Rightarrow> nat \<Rightarrow> mem \<Rightarrow> mem" where
  "store_loop V 0 pa m = m"
| "store_loop V (Suc n) pa m = store_loop V n (pa + length V) (store_bytes m pa V)"

fun store_loop8 :: "8 word list \<Rightarrow> nat \<Rightarrow> nat \<Rightarrow> mem \<Rightarrow> mem" where
  "store_loop8 V 0 pa m = m"
| "store_loop8 V (Suc len) pa m =
     store_loop8 V len (pa + 8 * length V)
       (fold (\<lambda>k m. store_bytes m (pa + k * length V) V) [0..<8] m)"

definition fill_c :: "c_type \<Rightarrow> 'a::len word \<Rightarrow> nat \<Rightarrow> int \<Rightarrow> mem \<Rightarrow> mem" where
  "fill_c T V pa Len m =
    (if sizeof V = 1 then memset m pa (ucast V) (nat (unsigned32 Len))
     else
      (let (len, lenEnd) = LOOP_PREFIX (8 * int (sizeof V)) (int (sizeof V)) Len;
           v = to_bytes (c_assign T V);
           m = store_loop8 v (nat len) pa m;
           pa = pa + 8 * sizeof V * nat len
       in store_loop v (nat lenEnd) pa m))"

text \<open>
  The header: \<open>a\<close> is the address of the array, \<open>pa\<close> that of \<open>a[BeginIndex]\<close>.  \<open>Len*sizeof(TYPE)\<close>
  is a product in \<open>size_t\<close>.  The result is the branch taken and the memory after it.
\<close>

definition Arrays_fill ::
  "c_type \<Rightarrow> 64 word \<Rightarrow> nat \<Rightarrow> int \<Rightarrow> int \<Rightarrow> 'a::len word \<Rightarrow> mem \<Rightarrow> branch \<times> mem" where
  "Arrays_fill T CpuInfo a BeginIndex Len V m =
    (let pa = nat (int a + BeginIndex * int (sizeof V))
     in if CpuInfo AND CPU_SSE \<noteq> 0 \<and> unsigned32 (Len * int (sizeof V)) > 32
        then (SSE_branch, fill_sse T CpuInfo V pa Len m)
        else (Scalar_branch, fill_c T V pa Len m))"

text \<open>
  The functions \<open>fill\<close> of ArraysNative.cpp, one for each \<open>TYPE\<close>: \<open>SINGLE_PREFIX\<close> with
  \<open>jint Len= EndIndex-BeginIndex\<close>, the header, \<open>SINGLE_POSTFIX\<close>.  \<open>T\<close> tells whether \<open>TYPE\<close> is
  a floating point type.  The result is the exception thrown, or the branch taken and
  the memory after the call.
\<close>

definition fill ::
  "c_type \<Rightarrow> 64 word \<Rightarrow> nat \<Rightarrow> int \<Rightarrow> int \<Rightarrow> 'a::len word \<Rightarrow> mem \<Rightarrow> jthrowable + branch \<times> mem" where
  "fill T CpuInfo a BeginIndex EndIndex V m =
    (let Len = jint (EndIndex - BeginIndex)
     in SINGLE_PREFIX a (\<lambda>a. Arrays_fill T CpuInfo a BeginIndex Len V m))"

subsection \<open>copyBytes (ArraysNative.cpp)\<close>

text \<open>\<open>rep movsb\<close> inside memory: \<open>ecx\<close> bytes from \<open>esi\<close> to \<open>edi\<close>, one at a time, upwards (\<open>cld\<close>).\<close>

fun rep_movsb :: "nat \<Rightarrow> nat \<Rightarrow> nat \<Rightarrow> mem \<Rightarrow> mem" where
  "rep_movsb esi edi 0 m = m"
| "rep_movsb esi edi (Suc ecx) m = rep_movsb (esi + 1) (edi + 1) ecx (m(edi := m esi))"

text \<open>
  One pass of the 64-byte loops: four 16-byte loads from \<open>[esi]\<close> into \<open>xmm0\<close> to \<open>xmm3\<close>, then
  four stores to \<open>[edi]\<close>; and the loop, \<open>ecx\<close> passes.
\<close>

definition copy_pass64 :: "store_insn \<Rightarrow> nat \<Rightarrow> nat \<Rightarrow> mem \<Rightarrow> mem" where
  "copy_pass64 i esi edi m =
    (let xmm0 = load_bytes m esi 16;
         xmm1 = load_bytes m (esi + 16) 16;
         xmm2 = load_bytes m (esi + 32) 16;
         xmm3 = load_bytes m (esi + 48) 16;
         m = store16 i m edi xmm0;
         m = store16 i m (edi + 16) xmm1;
         m = store16 i m (edi + 32) xmm2;
         m = store16 i m (edi + 48) xmm3
     in m)"

fun copy_loop64 :: "store_insn \<Rightarrow> nat \<Rightarrow> nat \<Rightarrow> nat \<Rightarrow> mem \<Rightarrow> mem" where
  "copy_loop64 i 0 esi edi m = m"
| "copy_loop64 i (Suc ecx) esi edi m = copy_loop64 i ecx (esi + 64) (edi + 64) (copy_pass64 i esi edi m)"

text \<open>
  The choice of the loop after \<open>jecxz\<close>: \<open>_Loop\<close> (\<open>movups\<close>) when \<open>esi\<close> or \<open>edi\<close> is not 16-byte
  aligned, else \<open>_LoopAligned\<close> (\<open>movaps\<close>) when \<open>ecx\<close> is below \<open>nonCachedCopyMinLen\<close>, else
  \<open>_LoopAligned_ntps\<close> (\<open>movntps\<close>); \<open>None\<close> when \<open>ecx\<close> is 0.
\<close>

definition copy_store_choice :: "64 word \<Rightarrow> nat \<Rightarrow> nat \<Rightarrow> nat \<Rightarrow> store_insn option" where
  "copy_store_choice CpuInfo ecx esi edi =
    (let cacheSizeIn64ByteBlocks = cacheSize CpuInfo div 64;
         nonCachedCopyMinLen = cacheSizeIn64ByteBlocks div 2
     in if ecx = 0 then None
        else if esi AND 15 \<noteq> 0 then Some movups
        else if edi AND 15 \<noteq> 0 then Some movups
        else if ecx < nonCachedCopyMinLen then Some movaps
        else Some movntps)"

text \<open>
  The SSE branch; \<open>pb\<close> is the source address \<open>a+Aofs\<close> and \<open>pa\<close> the destination \<open>b+Bofs\<close>.
  The three counts are moved into \<open>ecx\<close> and read there as unsigned numbers.
\<close>

definition copy_sse :: "64 word \<Rightarrow> nat \<Rightarrow> nat \<Rightarrow> int \<Rightarrow> mem \<Rightarrow> mem" where
  "copy_sse CpuInfo pb pa Len m =
    (let (lenStart, len, lenEnd) = LOOP_PREFIX_ALIGNED 64 1 (int pa) Len;
         esi = pb; edi = pa;
         ecx = nat (unsigned32 lenStart);
         m = rep_movsb esi edi ecx m;
         esi = esi + ecx; edi = edi + ecx;
         ecx = nat (unsigned32 len);
         m = (case copy_store_choice CpuInfo ecx esi edi of
                None \<Rightarrow> m
              | Some i \<Rightarrow> copy_loop64 i ecx esi edi m);
         esi = esi + 64 * ecx; edi = edi + 64 * ecx;
         ecx = nat (unsigned32 lenEnd)
     in rep_movsb esi edi ecx m)"

text \<open>\<open>memmove\<close> of the C library: the destination receives the bytes the source held before.\<close>

definition memmove :: "mem \<Rightarrow> nat \<Rightarrow> nat \<Rightarrow> nat \<Rightarrow> mem" where
  "memmove m dst src n = store_bytes m dst (load_bytes m src n)"

text \<open>
  The function \<open>copyBytes\<close>: \<open>PAIR_PREFIX\<close>, the body, \<open>PAIR_POSTFIX\<close>.  \<open>a\<close> and \<open>b\<close> are the
  addresses of the arrays \<open>A\<close> (source) and \<open>B\<close> (destination), equal when the caller passes
  one array twice; \<open>memmove\<close> takes \<open>Len\<close> as a \<open>size_t\<close>.  The result is the branch taken and
  the memory after it.
\<close>

definition copyBytes ::
  "64 word \<Rightarrow> nat \<Rightarrow> int \<Rightarrow> nat \<Rightarrow> int \<Rightarrow> int \<Rightarrow> mem \<Rightarrow> jthrowable + branch \<times> mem" where
  "copyBytes CpuInfo a Aofs b Bofs Len m =
    PAIR_PREFIX a b (\<lambda>a b.
      if CpuInfo AND CPU_SSE \<noteq> 0
      then (SSE_branch, copy_sse CpuInfo (nat (int a + Aofs)) (nat (int b + Bofs)) Len m)
      else (Scalar_branch, memmove m (nat (int b + Bofs)) (nat (int a + Aofs)) (nat (unsigned32 Len))))"
section \<open>The kernels on two separate arrays\<close>

text \<open>
  When the two ranges of a call share no element, the range of \<open>a\<close> and the range of \<open>b\<close> are
  two lists, the kernel reads both and writes the first, and a pass of an assembler loop
  is one group.  These are the kernels on such lists, with any comparison for \<open>cmp\<close> and
  \<open>a_addr\<close> for the address of the first list; a later section shows that the kernels on
  memory compute them.
\<close>

definition cmp_assign_list :: "('e \<Rightarrow> 'e \<Rightarrow> bool) \<Rightarrow> 'e list \<Rightarrow> nat \<Rightarrow> 'e list \<Rightarrow> nat \<Rightarrow> 'e list" where
  "cmp_assign_list cmp a pa b pb = (if cmp (a ! pa) (b ! pb) then a[pa := b ! pb] else a)"

fun scalar_loop_list :: "('e \<Rightarrow> 'e \<Rightarrow> bool) \<Rightarrow> nat \<Rightarrow> 'e list \<Rightarrow> nat \<Rightarrow> 'e list \<Rightarrow> nat \<Rightarrow> 'e list" where
  "scalar_loop_list cmp 0 a pa b pb = a"
| "scalar_loop_list cmp (Suc n) a pa b pb =
     scalar_loop_list cmp n (cmp_assign_list cmp a pa b pb) (pa + 1) b (pb + 1)"

definition unrolled32_list :: "('e \<Rightarrow> 'e \<Rightarrow> bool) \<Rightarrow> 'e list \<Rightarrow> nat \<Rightarrow> 'e list \<Rightarrow> nat \<Rightarrow> 'e list" where
  "unrolled32_list cmp a pa b pb = fold (\<lambda>k a. cmp_assign_list cmp a (pa + k) b (pb + k)) [0..<32] a"

fun unrolled_loop_list :: "('e \<Rightarrow> 'e \<Rightarrow> bool) \<Rightarrow> nat \<Rightarrow> 'e list \<Rightarrow> nat \<Rightarrow> 'e list \<Rightarrow> nat \<Rightarrow> 'e list" where
  "unrolled_loop_list cmp 0 a pa b pb = a"
| "unrolled_loop_list cmp (Suc n) a pa b pb =
     unrolled_loop_list cmp n (unrolled32_list cmp a pa b pb) (pa + 32) b (pb + 32)"

definition BODY_LOOP_list ::
  "('e \<Rightarrow> 'e \<Rightarrow> bool) \<Rightarrow> int \<Rightarrow> 'e list \<Rightarrow> nat \<Rightarrow> 'e list \<Rightarrow> nat \<Rightarrow> nat \<Rightarrow> 'e list" where
  "BODY_LOOP_list cmp sizeof_TYPE a Aofs b Bofs Len =
    (let pa = Aofs; pb = Bofs;
         (len, lenEnd) = LOOP_PREFIX (32 * sizeof_TYPE) sizeof_TYPE (int Len);
         a = unrolled_loop_list cmp (nat len) a pa b pb;
         pa = pa + 32 * nat len; pb = pb + 32 * nat len
     in scalar_loop_list cmp (nat lenEnd) a pa b pb)"

definition MINBODY_LOOP_list :: "c_type \<Rightarrow> 'a::len word list \<Rightarrow> nat \<Rightarrow> 'a word list \<Rightarrow> nat \<Rightarrow> nat \<Rightarrow> 'a word list" where
  "MINBODY_LOOP_list T a Aofs b Bofs Len =
     BODY_LOOP_list (c_cmp T CMP_GT) (int (LENGTH('a) div 8)) a Aofs b Bofs Len"

definition MAXBODY_LOOP_list :: "c_type \<Rightarrow> 'a::len word list \<Rightarrow> nat \<Rightarrow> 'a word list \<Rightarrow> nat \<Rightarrow> nat \<Rightarrow> 'a word list" where
  "MAXBODY_LOOP_list T a Aofs b Bofs Len =
     BODY_LOOP_list (c_cmp T CMP_LT) (int (LENGTH('a) div 8)) a Aofs b Bofs Len"

definition load_lanes_list :: "'e list \<Rightarrow> nat \<Rightarrow> nat \<Rightarrow> 'e list" where
  "load_lanes_list a p n = take n (drop p a)"

definition store_lanes_list :: "'e list \<Rightarrow> nat \<Rightarrow> 'e list \<Rightarrow> 'e list" where
  "store_lanes_list a p v = take p a @ v @ drop (p + length v) a"

text \<open>One pass of an assembler loop over \<open>n\<close> elements, and the loop of \<open>ecx\<close> passes.\<close>

definition packed_pass_list :: "('e \<Rightarrow> 'e \<Rightarrow> 'e) \<Rightarrow> nat \<Rightarrow> 'e list \<Rightarrow> nat \<Rightarrow> 'e list \<Rightarrow> nat \<Rightarrow> 'e list" where
  "packed_pass_list f n a eax b edx =
     store_lanes_list a eax (map2 f (load_lanes_list a eax n) (load_lanes_list b edx n))"

fun packed_loop_list :: "('e \<Rightarrow> 'e \<Rightarrow> 'e) \<Rightarrow> nat \<Rightarrow> nat \<Rightarrow> 'e list \<Rightarrow> nat \<Rightarrow> 'e list \<Rightarrow> nat \<Rightarrow> 'e list" where
  "packed_loop_list f n 0 a eax b edx = a"
| "packed_loop_list f n (Suc ecx) a eax b edx =
     packed_loop_list f n ecx (packed_pass_list f n a eax b edx) (eax + n) b (edx + n)"

text \<open>The three parts of a vectorised branch; \<open>a_addr\<close> is the address of \<open>a[0]\<close>.\<close>

definition aligned_branch_list ::
  "('e \<Rightarrow> 'e \<Rightarrow> bool) \<Rightarrow> ('e \<Rightarrow> 'e \<Rightarrow> 'e) \<Rightarrow> int \<Rightarrow> int \<Rightarrow> int \<Rightarrow>
     'e list \<Rightarrow> nat \<Rightarrow> 'e list \<Rightarrow> nat \<Rightarrow> nat \<Rightarrow> 'e list" where
  "aligned_branch_list cmp f UNLOOPING sizeof_TYPE a_addr a Aofs b Bofs Len =
    (let pa = Aofs; pb = Bofs;
         (lenStart, len, lenEnd) =
            LOOP_PREFIX_ALIGNED UNLOOPING sizeof_TYPE (a_addr + int Aofs * sizeof_TYPE) (int Len);
         a = scalar_loop_list cmp (nat lenStart) a pa b pb;
         pa = pa + nat lenStart; pb = pb + nat lenStart;
         n = nat (UNLOOPING div sizeof_TYPE);
         a = packed_loop_list f n (nat len) a pa b pb;
         pa = pa + n * nat len; pb = pb + n * nat len
     in scalar_loop_list cmp (nat lenEnd) a pa b pb)"

definition Arrays_minmax_int_list ::
  "'a::len word minmax_macros \<Rightarrow> 64 word \<Rightarrow> int \<Rightarrow> 'a word list \<Rightarrow> nat \<Rightarrow> 'a word list \<Rightarrow> nat \<Rightarrow> nat \<Rightarrow>
     branch \<times> 'a word list" where
  "Arrays_minmax_int_list M CpuInfo a_addr a Aofs b Bofs Len =
    (let sizeof_TYPE = int (LENGTH('a) div 8);
         cmp = c_cmp (TYPE_kind M) (CMP M)
     in if MINMAX_MMXEX M \<noteq> None \<and> CpuInfo AND CPU_MMXEX \<noteq> 0 then
          (MMXEX_branch,
           aligned_branch_list cmp (mmxex_lane (the (MINMAX_MMXEX M)) (BIT_MASK_SSE M))
             (if BIT_MASK_SSE M \<noteq> None then 32 else 64) sizeof_TYPE a_addr a Aofs b Bofs Len)
        else if CpuInfo AND CPU_MMX \<noteq> 0 then
          (MMX_branch, aligned_branch_list cmp (mmx_lane M) 32 sizeof_TYPE a_addr a Aofs b Bofs Len)
        else
          (Scalar_branch, BODY_LOOP_list cmp sizeof_TYPE a Aofs b Bofs Len))"

definition min_jlong_list :: "64 word \<Rightarrow> 64 word list \<Rightarrow> nat \<Rightarrow> 64 word list \<Rightarrow> nat \<Rightarrow> nat \<Rightarrow> branch \<times> 64 word list" where
  "min_jlong_list CpuInfo a Aofs b Bofs Len = (Scalar_branch, MINBODY_LOOP_list SignedInt a Aofs b Bofs Len)"

definition max_jlong_list :: "64 word \<Rightarrow> 64 word list \<Rightarrow> nat \<Rightarrow> 64 word list \<Rightarrow> nat \<Rightarrow> nat \<Rightarrow> branch \<times> 64 word list" where
  "max_jlong_list CpuInfo a Aofs b Bofs Len = (Scalar_branch, MAXBODY_LOOP_list SignedInt a Aofs b Bofs Len)"

definition Arrays_minmax_float_list ::
  "cmp_op \<Rightarrow> sse_minmax \<Rightarrow> 64 word \<Rightarrow> int \<Rightarrow> 32 word list \<Rightarrow> nat \<Rightarrow> 32 word list \<Rightarrow> nat \<Rightarrow> nat \<Rightarrow>
     branch \<times> 32 word list" where
  "Arrays_minmax_float_list cmp MINMAX_SSE CpuInfo a_addr a Aofs b Bofs Len =
    (if CpuInfo AND CPU_SSE \<noteq> 0 then
       (SSE_branch,
        aligned_branch_list (c_cmp Floating cmp) (sse_minmax MINMAX_SSE) 64 4 a_addr a Aofs b Bofs Len)
     else (Scalar_branch, BODY_LOOP_list (c_cmp Floating cmp) 4 a Aofs b Bofs Len))"

definition min_jfloat_list where "min_jfloat_list = Arrays_minmax_float_list CMP_GT minps"
definition max_jfloat_list where "max_jfloat_list = Arrays_minmax_float_list CMP_LT maxps"

definition Arrays_minmax_double_list ::
  "cmp_op \<Rightarrow> fcmov \<Rightarrow> 64 word \<Rightarrow> int \<Rightarrow> 64 word list \<Rightarrow> nat \<Rightarrow> 64 word list \<Rightarrow> nat \<Rightarrow> nat \<Rightarrow>
     branch \<times> 64 word list" where
  "Arrays_minmax_double_list cmp FCMOV CpuInfo a_addr a Aofs b Bofs Len =
    (if CpuInfo AND CPU_CMOV \<noteq> 0 then
       (CMOV_branch,
        aligned_branch_list (c_cmp Floating cmp) (x87_minmax FCMOV) 64 8 a_addr a Aofs b Bofs Len)
     else (Scalar_branch, BODY_LOOP_list (c_cmp Floating cmp) 8 a Aofs b Bofs Len))"

definition min_jdouble_list where "min_jdouble_list = Arrays_minmax_double_list CMP_GT fcmovnb"
definition max_jdouble_list where "max_jdouble_list = Arrays_minmax_double_list CMP_LT fcmovb"

section \<open>Reference semantics of the element-wise kernels\<close>

text \<open>
  \<open>elementwise_list f a Aofs b Bofs Len\<close> is the list \<open>a\<close> with \<open>a[Aofs+i]\<close> replaced by
  \<open>f a[Aofs+i] b[Bofs+i]\<close> for every \<open>i < Len\<close> and every other element kept.  \<open>cmp_select cmp\<close>
  is what \<open>if (x cmp y) x= y;\<close> leaves in \<open>x\<close>.
\<close>

definition elementwise_list :: "('e \<Rightarrow> 'e \<Rightarrow> 'e) \<Rightarrow> 'e list \<Rightarrow> nat \<Rightarrow> 'e list \<Rightarrow> nat \<Rightarrow> nat \<Rightarrow> 'e list" where
  "elementwise_list f a Aofs b Bofs Len =
     map (\<lambda>j. if Aofs \<le> j \<and> j < Aofs + Len then f (a ! j) (b ! (j - Aofs + Bofs)) else a ! j)
       [0..<length a]"

definition cmp_select :: "('e \<Rightarrow> 'e \<Rightarrow> bool) \<Rightarrow> 'e \<Rightarrow> 'e \<Rightarrow> 'e" where
  "cmp_select cmp x y = (if cmp x y then y else x)"

section \<open>Properties of the capability prober\<close>

lemmas cpu_flag_defs =
  CPU_FPU_def CPU_TSC_def CPU_CMOV_def CPU_MMX_def CPU_SSE_def CPU_SSE2_def
  CPU_AMD_def CPU_MMXEX_def CPU_3DNOWEX_def CPU_3DNOW_def
  CPU_AMD_L_def CPU_3DNOWEX_L_def CPU_3DNOW_L_def

lemmas cpu_field_defs =
  CPU_L2SIZE_SHIFT_def CPU_L2SIZE_UNIT_def CPU_L2SIZE_def
  CPU_L1DATASIZE_SHIFT_def CPU_L1DATASIZE_UNIT_def CPU_L1DATASIZE_def
  CPU_FAMILY_SHIFT_def CPU_FAMILY_def

lemma flag_test: "((x::'a::len word) AND push_bit n 1 \<noteq> 0) = bit x n"
  by (simp only: push_bit_of_1 and_exp_eq_0_iff_not_bit not_not)

lemma flag_bit: "bit (push_bit n 1 :: 'a::len word) k = (k = n \<and> n < LENGTH('a))"
  by (auto simp add: bit_simps)

lemma test_flags:
  "((x::'a::len word) AND CPU_FPU \<noteq> 0) = bit x 0"
  "((x::'a::len word) AND CPU_CMOV \<noteq> 0) = bit x 15"
  "((x::'a::len word) AND CPU_MMX \<noteq> 0) = bit x 23"
  "((x::'a::len word) AND CPU_SSE \<noteq> 0) = bit x 25"
  "((x::'a::len word) AND CPU_SSE2 \<noteq> 0) = bit x 26"
  "((y::64 word) AND CPU_MMXEX \<noteq> 0) = bit y 60"
  "((y::64 word) AND CPU_3DNOWEX \<noteq> 0) = bit y 62"
  "((y::64 word) AND CPU_3DNOW \<noteq> 0) = bit y 63"
  "((z::32 word) AND CPU_3DNOW_L \<noteq> 0) = bit z 31"
  using flag_test[of x 0]
  unfolding cpu_flag_defs by (simp_all only: flag_test push_bit_0_id diff_numeral_special) simp_all

lemma flag_bits:
  "bit (CPU_CMOV :: 32 word) k = (k = 15)"
  "bit (CPU_SSE :: 32 word) k = (k = 25)"
  "bit (CPU_SSE2 :: 32 word) k = (k = 26)"
  "bit CPU_AMD_L k = (k = 27)"
  "bit CPU_3DNOWEX_L k = (k = 30)"
  "bit CPU_3DNOW_L k = (k = 31)"
  "bit CPU_MMXEX k = (k = 60)"
  unfolding cpu_flag_defs by (simp_all only: flag_bit) simp_all

lemma downgrade_edx_bits:
  "bit (downgrade_edx e) 15 \<Longrightarrow> bit (downgrade_edx e) 0"
  "bit (downgrade_edx e) 25 \<Longrightarrow> bit (downgrade_edx e) 23"
  "bit (downgrade_edx e) 26 \<Longrightarrow> bit (downgrade_edx e) 23"
  "bit (downgrade_edx e) 26 \<Longrightarrow> bit (downgrade_edx e) 25"
  by (simp_all add: downgrade_edx_def Let_def test_flags flag_bits bit_simps split: if_splits)

lemma downgrade_amd_bits:
  "bit (downgrade_amd e) 30 \<Longrightarrow> bit (downgrade_amd e) 31"
  by (simp_all add: downgrade_amd_def Let_def test_flags flag_bits bit_simps split: if_splits)

lemma bit_set_low_dword:
  "bit (set_low_dword q d) n = (if n < 32 then bit d n else bit q n)"
  by (auto simp add: set_low_dword_def bit_simps dest: bit_imp_le_length)

lemma pack_low_bits:
  "n < 32 \<Longrightarrow> bit (pack_descriptor s) n = bit (cpuInfoLast s) n"
  by (auto simp add: pack_descriptor_def Let_def flag_bits cpu_field_defs bit_simps)

lemma pack_bit60:
  "bit (pack_descriptor s) 60 = (bit (cpuInfoLast s) 60 \<or> bit (cpuInfoLast s) 25)"
  by (auto simp add: pack_descriptor_def Let_def flag_bits test_flags cpu_field_defs bit_simps)

lemma pack_bit62:
  "bit (pack_descriptor s) 62 = (bit (cpuInfoLast s) 62 \<or> bit (amdFeatures s) 30)"
  by (auto simp add: pack_descriptor_def Let_def flag_bits test_flags cpu_field_defs bit_simps)

lemma pack_bit63:
  "bit (pack_descriptor s) 63 = (bit (cpuInfoLast s) 63 \<or> bit (amdFeatures s) 31)"
  by (auto simp add: pack_descriptor_def Let_def flag_bits test_flags cpu_field_defs bit_simps)

text \<open>
  What the assembler block leaves behind on the initial statics: the low half of
  \<open>cpuInfoLast\<close> is a downgraded feature word (or the block left early and it is still 0),
  and \<open>amdFeatures\<close> is a downgraded extended feature word or still 0.
\<close>

definition block_ok :: "probe_vars \<Rightarrow> bool" where
  "block_ok s \<longleftrightarrow>
     (cpuInfoLast s = 0 \<or> (\<exists>e. cpuInfoLast s = set_low_dword 0 (downgrade_edx e))) \<and>
     (amdFeatures s = 0 \<or> (\<exists>e. amdFeatures s = downgrade_amd e))"

lemma cpuid_leaf2_keeps:
  "cpuid_leaf2 h s = Some t \<Longrightarrow> cpuInfoLast t = cpuInfoLast s \<and> amdFeatures t = amdFeatures s"
  by (auto simp add: cpuid_leaf2_def split: option.splits if_splits)

lemma cpuid_extended_keeps:
  "cpuid_extended h e s = Some t \<Longrightarrow>
     cpuInfoLast t = cpuInfoLast s \<and> (\<exists>x. amdFeatures t = downgrade_amd x)"
  unfolding cpuid_extended_def Let_def
  by (fastforce split: option.splits if_splits prod.splits)

lemma cpuid_block_ok:
  assumes "cpuid_block h (probe_vars0 h) = Some s"
  shows "block_ok s"
proof (cases "cpuid h 0")
  case None
  with assms show ?thesis by (simp add: cpuid_block_def)
next
  case (Some r0)
  obtain eax0 b0 c0 d0 where r0: "r0 = (eax0, b0, c0, d0)" by (cases r0) auto
  show ?thesis
  proof (cases "eax0 = 0")
    case True
    with assms Some r0 have "s = probe_vars0 h" by (simp add: cpuid_block_def)
    then show ?thesis by (simp add: block_ok_def probe_vars0_def)
  next
    case nz: False
    show ?thesis
    proof (cases "cpuid h 1")
      case None
      with assms Some r0 nz show ?thesis by (simp add: cpuid_block_def)
    next
      case S1: (Some r1)
      obtain eax1 b1 c1 edx1 where r1: "r1 = (eax1, b1, c1, edx1)" by (cases r1) auto
      define s1 where "s1 = (probe_vars0 h)\<lparr>maxArgForCpuId := eax0, cpuid1regEAX := eax1,
          cpuInfoLast := set_low_dword (cpuInfoLast (probe_vars0 h)) (downgrade_edx edx1)\<rparr>"
      have s1: "cpuInfoLast s1 = set_low_dword 0 (downgrade_edx edx1)" "amdFeatures s1 = 0"
        by (simp_all add: s1_def probe_vars0_def)
      show ?thesis
      proof (cases "cpuid h 0x80000000")
        case None
        with assms Some r0 nz S1 r1 show ?thesis by (simp add: cpuid_block_def)
      next
        case SE: (Some rE)
        obtain eaxE bE cE dE where rE: "rE = (eaxE, bE, cE, dE)" by (cases rE) auto
        from assms Some r0 nz S1 r1 SE rE
        have "(if eaxE < 0x80000005 then cpuid_leaf2 h s1 else cpuid_extended h eaxE s1) = Some s"
          by (auto simp add: cpuid_block_def s1_def Let_def split: if_splits)
        then show ?thesis
          using s1 cpuid_leaf2_keeps[of h s1 s] cpuid_extended_keeps[of h eaxE s1 s]
          by (cases "eaxE < 0x80000005") (auto simp add: block_ok_def)
      qed
    qed
  qed
qed

lemma pack_descriptor_bits:
  assumes "block_ok s"
  shows "bit (pack_descriptor s) 15 \<Longrightarrow> bit (pack_descriptor s) 0"
    and "bit (pack_descriptor s) 25 \<Longrightarrow> bit (pack_descriptor s) 23"
    and "bit (pack_descriptor s) 26 \<Longrightarrow> bit (pack_descriptor s) 23"
    and "bit (pack_descriptor s) 26 \<Longrightarrow> bit (pack_descriptor s) 25"
    and "bit (pack_descriptor s) 62 \<Longrightarrow> bit (pack_descriptor s) 63"
    and "bit (pack_descriptor s) 25 \<Longrightarrow> bit (pack_descriptor s) 60"
  using assms downgrade_edx_bits downgrade_amd_bits
  by (auto simp add: block_ok_def pack_low_bits pack_bit60 pack_bit62 pack_bit63 bit_set_low_dword)

lemma cpuInfo_fresh_invariant: "downgrade_invariant (cpuInfo_fresh h)"
proof (cases "cpuid_block h (probe_vars0 h)")
  case None
  then show ?thesis by (simp add: cpuInfo_fresh_def downgrade_invariant_def)
next
  case (Some s)
  then have "block_ok s" by (rule cpuid_block_ok)
  from pack_descriptor_bits[OF this] Some show ?thesis
    by (simp add: cpuInfo_fresh_def downgrade_invariant_def test_flags)
qed

lemma cpuInfo_fresh_mmxex:
  "cpuInfo_fresh h AND CPU_SSE \<noteq> 0 \<Longrightarrow> cpuInfo_fresh h AND CPU_MMXEX \<noteq> 0"
proof (cases "cpuid_block h (probe_vars0 h)")
  case None
  assume "cpuInfo_fresh h AND CPU_SSE \<noteq> 0"
  with None show ?thesis by (simp add: cpuInfo_fresh_def)
next
  case (Some s)
  assume a: "cpuInfo_fresh h AND CPU_SSE \<noteq> 0"
  from Some have "block_ok s" by (rule cpuid_block_ok)
  from pack_descriptor_bits(6)[OF this] Some a show ?thesis
    by (simp add: cpuInfo_fresh_def test_flags)
qed

lemma cpuInfo_calls_memo:
  "cpuInfoCalculated st \<Longrightarrow> d \<in> set (cpuInfo_calls hs st) \<Longrightarrow> d = cpuInfoMemo st"
  by (induction hs arbitrary: st) (auto simp add: cpuInfo_def)

lemma cpuInfo_calls_fresh:
  assumes "d \<in> set (cpuInfo_calls hs probe_state0)"
  shows "\<exists>h. h \<in> set hs \<and> d = cpuInfo_fresh h"
proof (cases hs)
  case Nil
  with assms show ?thesis by simp
next
  case (Cons h hs')
  have "d = cpuInfo_fresh h"
    using assms Cons
      cpuInfo_calls_memo[of "\<lparr>cpuInfoCalculated = True, cpuInfoMemo = cpuInfo_fresh h\<rparr>" d hs']
    by (auto simp add: cpuInfo_def probe_state0_def Let_def)
  with Cons show ?thesis by auto
qed

text \<open>The descriptors of the two example hosts.\<close>

lemma cpuid_block_intel_host:
  "cpuid_block intel_host (probe_vars0 intel_host) =
     Some \<lparr>cpuInfoLast = 0x0383F9FF, maxArgForCpuId = 2, cpuid1regEAX = 0x673,
       amdFeatures = 0, l1d = 0, l2 = 0, cpuid2regs = [0x03020101, 0, 0, 0x0C040843]\<rparr>"
  by (simp add: intel_host_def cpuid_block_def probe_vars0_def cpuid_leaf2_def downgrade_edx_def
      set_low_dword_def cpu_flag_defs Let_def)

lemma cpuInfo_fresh_intel_host: "cpuInfo_fresh intel_host = 0x101808100383F9FF"
  unfolding cpuInfo_fresh_def cpuid_block_intel_host
  by (simp add: pack_descriptor_def cpu_flag_defs cpu_field_defs Let_def word_sless_alt
      word_sle_eq cpu_family_def cpuid2info_def reg_bytes_def descriptor_step_def)

lemma cpuid_block_amd_host:
  "cpuid_block amd_host (probe_vars0 amd_host) =
     Some \<lparr>cpuInfoLast = 0x0783F9FF, maxArgForCpuId = 1, cpuid1regEAX = 0x642,
       amdFeatures = 0xC9C3F9FF, l1d = 0x40, l2 = 0x100, cpuid2regs = [0, 0, 0, 0]\<rparr>"
  by (simp add: amd_host_def cpuid_block_def probe_vars0_def cpuid_extended_def downgrade_edx_def
      downgrade_amd_def set_low_dword_def cpu_flag_defs Let_def)

lemma cpuInfo_fresh_amd_host: "cpuInfo_fresh amd_host = 0xD81820080783F9FF"
  unfolding cpuInfo_fresh_def cpuid_block_amd_host
  by (simp add: pack_descriptor_def cpu_flag_defs cpu_field_defs Let_def word_sless_alt
      word_sle_eq cpu_family_def)

lemma cpuInfo_calls_twice:
  "cpuInfo_calls [h, h'] probe_state0 = [cpuInfo_fresh h, cpuInfo_fresh h]"
  by (simp add: cpuInfo_def probe_state0_def Let_def)

section \<open>Properties of the loop splitting\<close>

lemma and_consts:
  "(x::int) AND 0 = 0" "(x::int) AND 1 = x mod 2" "(x::int) AND 3 = x mod 4" "(x::int) AND 7 = x mod 8"
  "(x::int) AND 15 = x mod 16" "(x::int) AND 31 = x mod 32" "(x::int) AND 63 = x mod 64"
  using take_bit_eq_mask[of 1 x] take_bit_eq_mask[of 2 x] take_bit_eq_mask[of 3 x]
    take_bit_eq_mask[of 4 x] take_bit_eq_mask[of 5 x] take_bit_eq_mask[of 6 x]
  by (simp_all add: take_bit_eq_mod mask_eq_exp_minus_1)

text \<open>\<open>lenStart\<close> as \<open>LOOP_PREFIX_ALIGNED\<close> computes it, in one expression.\<close>

definition head_len :: "int \<Rightarrow> int \<Rightarrow> int \<Rightarrow> int" where
  "head_len sz pa Len =
    (if pa mod 32 \<noteq> 0 \<and> pa mod sz = 0 \<and> (32 - pa mod 32) div sz \<le> Len
     then (32 - pa mod 32) div sz else 0)"

lemma mod_mod_32:
  assumes "sz \<in> {1, 2, 4, 8}"
  shows "(pa mod 32) mod sz = (pa::int) mod sz"
proof -
  have "sz dvd 32" using assms by auto
  then show ?thesis by (rule mod_mod_cancel)
qed

lemma and_pow2:
  "m \<in> {1, 2, 4, 8, 16, 32, 64} \<Longrightarrow> (x::int) AND (m - 1) = x mod m"
  by (auto simp add: and_consts)

lemma unit_cases:
  "sz \<in> {1, 2, 4, 8} \<Longrightarrow> U \<in> {32, 64} \<Longrightarrow> (U::int) div sz \<in> {4, 8, 16, 32, 64}"
  by auto

lemma LOOP_PREFIX_ALIGNED_eq:
  assumes "sz \<in> {1, 2, 4, 8}" "U \<in> {32, 64}"
  shows "LOOP_PREFIX_ALIGNED U sz pa Len =
    (let h = head_len sz pa Len; r = Len - h; n = U div sz
     in if r div n > 0 then (h, r div n - 1, r mod n + n) else (h, r div n, r mod n))"
proof -
  have 1: "x AND (sz - 1) = x mod sz" for x
    using assms(1) by (intro and_pow2) auto
  have 2: "x AND (U div sz - 1) = x mod (U div sz)" for x
    using unit_cases[OF assms] by (intro and_pow2) auto
  show ?thesis
    unfolding LOOP_PREFIX_ALIGNED_def head_len_def Let_def 1 2 and_consts mod_mod_32[OF assms(1)]
    by (simp add: not_less)
qed

lemma head_len_bounds:
  assumes "sz \<in> {1, 2, 4, 8}" "0 \<le> Len"
  shows "0 \<le> head_len sz pa Len" "head_len sz pa Len \<le> Len" "head_len sz pa Len < 32"
  using assms by (auto simp add: head_len_def pos_imp_zdiv_nonneg_iff) 

lemma head_len_aligned:
  assumes "sz \<in> {1, 2, 4, 8}" "head_len sz pa Len \<noteq> 0"
  shows "(pa + head_len sz pa Len * sz) mod 32 = 0"
proof -
  from assms(2) have d: "pa mod 32 \<noteq> 0" "pa mod sz = 0" and h: "head_len sz pa Len = (32 - pa mod 32) div sz"
    by (auto simp add: head_len_def split: if_splits)
  have "sz dvd 32" using assms(1) by auto
  moreover have "sz dvd pa mod 32" using d(2) mod_mod_32[OF assms(1), of pa] by (simp add: dvd_eq_mod_eq_0)
  ultimately have "sz dvd (32 - pa mod 32)" by (rule dvd_diff)
  then have "(32 - pa mod 32) div sz * sz = 32 - pa mod 32" by simp
  then have "pa + head_len sz pa Len * sz = pa - pa mod 32 + 32" using h by simp
  also have "\<dots> mod 32 = 0" by (simp add: minus_mod_eq_mult_div)
  finally show ?thesis .
qed

lemma head_len_zero_iff:
  assumes "sz \<in> {1, 2, 4, 8}"
  shows "head_len sz pa Len = 0 \<longleftrightarrow> pa mod 32 = 0 \<or> pa mod sz \<noteq> 0 \<or> Len < (32 - pa mod 32) div sz"
proof -
  have "0 < (32 - pa mod 32) div sz" if "pa mod sz = 0"
  proof -
    have "sz dvd 32" using assms(1) by auto
    moreover have "sz dvd pa mod 32" using that mod_mod_32[OF assms(1), of pa] by (simp add: dvd_eq_mod_eq_0)
    ultimately have "sz dvd (32 - pa mod 32)" by (rule dvd_diff)
    then obtain k where k: "32 - pa mod 32 = sz * k" by (auto simp add: dvd_def)
    have "0 < 32 - pa mod 32" by (simp add: algebra_simps)
    moreover have "0 < sz" using assms by auto
    ultimately have "0 < k" using k by (simp add: zero_less_mult_iff)
    with k \<open>0 < sz\<close> show ?thesis by simp
  qed
  then show ?thesis by (auto simp add: head_len_def)
qed

lemma LOOP_PREFIX_ALIGNED_sound:
  assumes sz: "sz \<in> {1, 2, 4, 8}" and U: "U \<in> {32, 64}" and Len: "0 \<le> Len"
    and eq: "LOOP_PREFIX_ALIGNED U sz pa Len = (lenStart, len, lenEnd)"
  shows "lenStart = head_len sz pa Len" "0 \<le> lenStart" "0 \<le> len" "0 \<le> lenEnd"
    "lenStart + len * (U div sz) + lenEnd = Len"
proof -
  define n where "n = U div sz"
  define r where "r = Len - head_len sz pa Len"
  have n: "0 < n" using unit_cases[OF sz U] by (auto simp add: n_def)
  have r: "0 \<le> r" using head_len_bounds(2)[OF sz Len, of pa] by (simp add: r_def)
  have *: "(lenStart, len, lenEnd) =
      (if r div n > 0 then (head_len sz pa Len, r div n - 1, r mod n + n)
       else (head_len sz pa Len, r div n, r mod n))"
    using eq LOOP_PREFIX_ALIGNED_eq[OF sz U, of pa Len] by (auto simp add: Let_def n_def r_def split: if_splits)
  show "lenStart = head_len sz pa Len" using * by (simp split: if_splits)
  then show "0 \<le> lenStart" using head_len_bounds(1)[OF sz Len] by simp
  have d: "0 \<le> r div n" using r n by (simp add: pos_imp_zdiv_nonneg_iff)
  show "0 \<le> len" using * d by (auto split: if_splits)
  have m: "0 \<le> r mod n" using n by simp
  show "0 \<le> lenEnd" using * m n by (auto split: if_splits)
  have dm: "r div n * n + r mod n = r" by simp
  show "lenStart + len * (U div sz) + lenEnd = Len"
  proof (cases "0 < r div n")
    case True
    with * have "lenStart = head_len sz pa Len" "len = r div n - 1" "lenEnd = r mod n + n" by simp_all
    then have "lenStart + len * n + lenEnd = head_len sz pa Len + (r div n * n + r mod n)"
      by (simp add: left_diff_distrib)
    then show ?thesis unfolding dm by (simp add: n_def r_def)
  next
    case False
    with * have "lenStart = head_len sz pa Len" "len = r div n" "lenEnd = r mod n" by simp_all
    then have "lenStart + len * n + lenEnd = head_len sz pa Len + (r div n * n + r mod n)"
      by simp
    then show ?thesis unfolding dm by (simp add: n_def r_def)
  qed
qed

section \<open>The loops compute the reference semantics\<close>

lemma length_elementwise [simp]: "length (elementwise_list f a p b q n) = length a"
  by (simp add: elementwise_list_def)

lemma nth_elementwise:
  "j < length a \<Longrightarrow> elementwise_list f a p b q n ! j =
     (if p \<le> j \<and> j < p + n then f (a ! j) (b ! (j - p + q)) else a ! j)"
  by (simp add: elementwise_list_def)

lemma elementwise_0 [simp]: "elementwise_list f a p b q 0 = a"
  by (rule nth_equalityI) (auto simp add: nth_elementwise)

lemma elementwise_append:
  "elementwise_list f (elementwise_list f a p b q n) (p + n) b (q + n) m = elementwise_list f a p b q (n + m)"
  by (rule nth_equalityI) (auto simp add: nth_elementwise)

lemma length_cmp_assign [simp]: "length (cmp_assign_list cmp a pa b pb) = length a"
  by (simp add: cmp_assign_list_def)

lemma cmp_assign_elementwise:
  assumes "pa < length a"
  shows "cmp_assign_list cmp a pa b pb = elementwise_list (cmp_select cmp) a pa b pb 1"
proof (rule nth_equalityI)
  show "length (cmp_assign_list cmp a pa b pb) = length (elementwise_list (cmp_select cmp) a pa b pb 1)"
    by simp
next
  fix i assume "i < length (cmp_assign_list cmp a pa b pb)"
  then have "i < length a" by simp
  with assms show "cmp_assign_list cmp a pa b pb ! i = elementwise_list (cmp_select cmp) a pa b pb 1 ! i"
    by (auto simp add: nth_elementwise cmp_assign_list_def cmp_select_def nth_list_update)
qed

lemma scalar_loop_elementwise:
  "pa + n \<le> length a \<Longrightarrow> scalar_loop_list cmp n a pa b pb = elementwise_list (cmp_select cmp) a pa b pb n"
proof (induction n arbitrary: a pa pb)
  case 0
  then show ?case by simp
next
  case (Suc n)
  have "scalar_loop_list cmp (Suc n) a pa b pb =
      elementwise_list (cmp_select cmp) (elementwise_list (cmp_select cmp) a pa b pb 1) (pa + 1) b (pb + 1) n"
    using Suc.prems by (simp add: Suc.IH cmp_assign_elementwise)
  also have "\<dots> = elementwise_list (cmp_select cmp) a pa b pb (1 + n)"
    by (rule elementwise_append)
  finally show ?case by simp
qed

lemma fold_cmp_assign:
  "pa + n \<le> length a \<Longrightarrow>
   fold (\<lambda>k a. cmp_assign_list cmp a (pa + k) b (pb + k)) [0..<n] a = elementwise_list (cmp_select cmp) a pa b pb n"
proof (induction n)
  case 0
  then show ?case by simp
next
  case (Suc n)
  then have "fold (\<lambda>k a. cmp_assign_list cmp a (pa + k) b (pb + k)) [0..<Suc n] a =
      elementwise_list (cmp_select cmp) (elementwise_list (cmp_select cmp) a pa b pb n) (pa + n) b (pb + n) 1"
    by (simp add: cmp_assign_elementwise)
  then show ?case by (simp add: elementwise_append)
qed

lemma unrolled32_elementwise:
  "pa + 32 \<le> length a \<Longrightarrow> unrolled32_list cmp a pa b pb = elementwise_list (cmp_select cmp) a pa b pb 32"
  unfolding unrolled32_list_def by (rule fold_cmp_assign)

lemma unrolled_loop_elementwise:
  "pa + 32 * n \<le> length a \<Longrightarrow>
   unrolled_loop_list cmp n a pa b pb = elementwise_list (cmp_select cmp) a pa b pb (32 * n)"
proof (induction n arbitrary: a pa pb)
  case 0
  then show ?case by simp
next
  case (Suc n)
  have "unrolled_loop_list cmp (Suc n) a pa b pb =
      elementwise_list (cmp_select cmp) (elementwise_list (cmp_select cmp) a pa b pb 32) (pa + 32) b (pb + 32) (32 * n)"
    using Suc.prems by (simp add: Suc.IH unrolled32_elementwise)
  also have "\<dots> = elementwise_list (cmp_select cmp) a pa b pb (32 + 32 * n)"
    by (rule elementwise_append)
  finally show ?case by simp
qed

lemma packed_pass_elementwise:
  assumes "eax + n \<le> length a" "edx + n \<le> length b"
  shows "packed_pass_list f n a eax b edx = elementwise_list f a eax b edx n"
proof (rule nth_equalityI)
  show "length (packed_pass_list f n a eax b edx) = length (elementwise_list f a eax b edx n)"
    using assms by (simp add: packed_pass_list_def store_lanes_list_def load_lanes_list_def)
next
  fix j assume "j < length (packed_pass_list f n a eax b edx)"
  then have j: "j < length a"
    using assms by (simp add: packed_pass_list_def store_lanes_list_def load_lanes_list_def)
  show "packed_pass_list f n a eax b edx ! j = elementwise_list f a eax b edx n ! j"
    using assms j
    by (auto simp add: packed_pass_list_def store_lanes_list_def load_lanes_list_def nth_elementwise nth_append
        add.commute)
qed

lemma packed_loop_elementwise:
  "eax + n * c \<le> length a \<Longrightarrow> edx + n * c \<le> length b \<Longrightarrow>
   packed_loop_list f n c a eax b edx = elementwise_list f a eax b edx (n * c)"
proof (induction c arbitrary: a eax edx)
  case 0
  then show ?case by simp
next
  case (Suc c)
  have "packed_loop_list f n (Suc c) a eax b edx =
      elementwise_list f (elementwise_list f a eax b edx n) (eax + n) b (edx + n) (n * c)"
    using Suc.prems by (simp add: Suc.IH packed_pass_elementwise add.assoc)
  also have "\<dots> = elementwise_list f a eax b edx (n + n * c)"
    by (rule elementwise_append)
  finally show ?case by simp
qed

lemma LOOP_PREFIX_eq:
  assumes "sz \<in> {1, 2, 4, 8}" "n \<in> {8, 32}"
  shows "LOOP_PREFIX (n * sz) sz Len = (Len div n, Len mod n)"
proof -
  have "n * sz div sz = n" using assms(1) by auto
  moreover have "x AND (n - 1) = x mod n" for x
    using assms(2) by (intro and_pow2) auto
  ultimately show ?thesis by (simp add: LOOP_PREFIX_def Let_def)
qed

lemma BODY_LOOP_elementwise:
  assumes sz: "sz \<in> {1, 2, 4, 8}" and a: "Aofs + Len \<le> length a"
  shows "BODY_LOOP_list cmp sz a Aofs b Bofs Len = elementwise_list (cmp_select cmp) a Aofs b Bofs Len"
proof -
  have p: "LOOP_PREFIX (32 * sz) sz (int Len) = (int (Len div 32), int (Len mod 32))"
    using LOOP_PREFIX_eq[OF sz, of 32 "int Len"] by (simp add: zdiv_int zmod_int)
  have le: "Aofs + 32 * (Len div 32) \<le> length a" using a by simp
  have "BODY_LOOP_list cmp sz a Aofs b Bofs Len =
      scalar_loop_list cmp (Len mod 32) (unrolled_loop_list cmp (Len div 32) a Aofs b Bofs)
        (Aofs + 32 * (Len div 32)) b (Bofs + 32 * (Len div 32))"
    by (simp add: BODY_LOOP_list_def p Let_def)
  also have "\<dots> = elementwise_list (cmp_select cmp) (elementwise_list (cmp_select cmp) a Aofs b Bofs (32 * (Len div 32)))
        (Aofs + 32 * (Len div 32)) b (Bofs + 32 * (Len div 32)) (Len mod 32)"
    using a le by (simp add: unrolled_loop_elementwise[OF le] scalar_loop_elementwise)
  also have "\<dots> = elementwise_list (cmp_select cmp) a Aofs b Bofs (32 * (Len div 32) + Len mod 32)"
    by (rule elementwise_append)
  finally show ?thesis by simp
qed

lemma aligned_branch_phases:
  assumes sz: "sz \<in> {1, 2, 4, 8}" and U: "U \<in> {32, 64}"
    and a: "Aofs + Len \<le> length a" and b: "Bofs + Len \<le> length b"
  shows "\<exists>h n m. h + n + m = Len \<and>
     aligned_branch_list cmp f U sz a_addr a Aofs b Bofs Len =
       elementwise_list (cmp_select cmp)
         (elementwise_list f (elementwise_list (cmp_select cmp) a Aofs b Bofs h) (Aofs + h) b (Bofs + h) n)
         (Aofs + h + n) b (Bofs + h + n) m"
proof -
  obtain lenStart len lenEnd where
    eq: "LOOP_PREFIX_ALIGNED U sz (a_addr + int Aofs * sz) (int Len) = (lenStart, len, lenEnd)"
    by (metis prod_cases3)
  note s = LOOP_PREFIX_ALIGNED_sound[OF sz U _ eq, simplified]
  define h where "h = nat lenStart"
  define u where "u = nat (U div sz)"
  define c where "c = nat len"
  define m where "m = nat lenEnd"
  have un: "0 \<le> U div sz" using unit_cases[OF sz U] by auto
  have "int (h + u * c + m) = lenStart + len * (U div sz) + lenEnd"
    using s(2,3,4) un by (simp add: h_def u_def c_def m_def nat_mult_distrib algebra_simps)
  then have sum: "h + u * c + m = Len" using s(5) by linarith
  have "aligned_branch_list cmp f U sz a_addr a Aofs b Bofs Len =
      scalar_loop_list cmp m (packed_loop_list f u c (scalar_loop_list cmp h a Aofs b Bofs) (Aofs + h) b (Bofs + h))
        (Aofs + h + u * c) b (Bofs + h + u * c)"
    by (simp add: aligned_branch_list_def eq Let_def h_def u_def c_def m_def)
  also have "\<dots> = elementwise_list (cmp_select cmp)
         (elementwise_list f (elementwise_list (cmp_select cmp) a Aofs b Bofs h) (Aofs + h) b (Bofs + h) (u * c))
         (Aofs + h + u * c) b (Bofs + h + u * c) m"
    using a b sum
    by (simp add: scalar_loop_elementwise packed_loop_elementwise)
  finally show ?thesis using sum by blast
qed

lemma aligned_branch_elementwise:
  assumes sz: "sz \<in> {1, 2, 4, 8}" and U: "U \<in> {32, 64}"
    and a: "Aofs + Len \<le> length a" and b: "Bofs + Len \<le> length b"
    and f: "f = cmp_select cmp"
  shows "aligned_branch_list cmp f U sz a_addr a Aofs b Bofs Len = elementwise_list (cmp_select cmp) a Aofs b Bofs Len"
proof -
  from aligned_branch_phases[OF sz U a b, of cmp f a_addr] obtain h n m where
    "h + n + m = Len" and
    "aligned_branch_list cmp f U sz a_addr a Aofs b Bofs Len =
       elementwise_list (cmp_select cmp)
         (elementwise_list f (elementwise_list (cmp_select cmp) a Aofs b Bofs h) (Aofs + h) b (Bofs + h) n)
         (Aofs + h + n) b (Bofs + h + n) m" by blast
  then show ?thesis unfolding f by (simp add: elementwise_append add.assoc)
qed

lemma aligned_branch_nth:
  assumes sz: "sz \<in> {1, 2, 4, 8}" and U: "U \<in> {32, 64}"
    and a: "Aofs + Len \<le> length a" and b: "Bofs + Len \<le> length b"
  shows "length (aligned_branch_list cmp f U sz a_addr a Aofs b Bofs Len) = length a"
    and "j < Aofs \<or> Aofs + Len \<le> j \<Longrightarrow> j < length a \<Longrightarrow>
          aligned_branch_list cmp f U sz a_addr a Aofs b Bofs Len ! j = a ! j"
    and "i < Len \<Longrightarrow>
          aligned_branch_list cmp f U sz a_addr a Aofs b Bofs Len ! (Aofs + i) = cmp_select cmp (a ! (Aofs + i)) (b ! (Bofs + i)) \<or>
          aligned_branch_list cmp f U sz a_addr a Aofs b Bofs Len ! (Aofs + i) = f (a ! (Aofs + i)) (b ! (Bofs + i))"
proof -
  from aligned_branch_phases[OF sz U a b, of cmp f a_addr] obtain h n m where
    sum: "h + n + m = Len" and
    eq: "aligned_branch_list cmp f U sz a_addr a Aofs b Bofs Len =
       elementwise_list (cmp_select cmp)
         (elementwise_list f (elementwise_list (cmp_select cmp) a Aofs b Bofs h) (Aofs + h) b (Bofs + h) n)
         (Aofs + h + n) b (Bofs + h + n) m" by blast
  show "length (aligned_branch_list cmp f U sz a_addr a Aofs b Bofs Len) = length a"
    by (simp add: eq)
  show "aligned_branch_list cmp f U sz a_addr a Aofs b Bofs Len ! j = a ! j"
    if "j < Aofs \<or> Aofs + Len \<le> j" "j < length a"
    using that sum by (auto simp add: eq nth_elementwise)
  show "aligned_branch_list cmp f U sz a_addr a Aofs b Bofs Len ! (Aofs + i) = cmp_select cmp (a ! (Aofs + i)) (b ! (Bofs + i)) \<or>
          aligned_branch_list cmp f U sz a_addr a Aofs b Bofs Len ! (Aofs + i) = f (a ! (Aofs + i)) (b ! (Bofs + i))"
    if "i < Len"
  proof -
    have "Aofs + i < length a" using that a by simp
    then show ?thesis using sum that
      by (auto simp add: eq nth_elementwise add.commute add.left_commute)
  qed
qed

section \<open>The packed sequences compute the C comparison\<close>

text \<open>
  Flipping the sign bit of both operands turns the unsigned order into the signed one and
  back; this is what the \<open>pxor\<close> with \<open>BIT_MASK_SSE\<close> and \<open>BIT_MASK_MMX\<close> is for.
\<close>

lemma two_halves: "(2::'a::len word) ^ (LENGTH('a) - 1) + 2 ^ (LENGTH('a) - 1) = 0"
proof -
  have "(2::'a word) ^ (LENGTH('a) - 1) + 2 ^ (LENGTH('a) - 1) = 2 * 2 ^ (LENGTH('a) - 1)"
    by (simp only: mult_2)
  also have "\<dots> = 2 ^ Suc (LENGTH('a) - 1)" by (simp only: power_Suc)
  also have "\<dots> = 2 ^ LENGTH('a)" by simp
  also have "\<dots> = 0" by simp
  finally show ?thesis .
qed

lemma neg_half: "- ((2::'a::len word) ^ (LENGTH('a) - 1)) = 2 ^ (LENGTH('a) - 1)"
  using two_halves[where 'a='a] by (simp only: minus_unique)

lemma xor_sign_add: "(x::'a::len word) XOR push_bit (LENGTH('a) - 1) 1 = x + 2 ^ (LENGTH('a) - 1)"
proof -
  have "x XOR push_bit (LENGTH('a) - 1) 1 = flip_bit (LENGTH('a) - 1) x"
    by (simp only: flip_bit_eq_xor)
  also have "\<dots> = x + 2 ^ (LENGTH('a) - 1)"
  proof (cases "bit x (LENGTH('a) - 1)")
    case True
    then have "flip_bit (LENGTH('a) - 1) x = unset_bit (LENGTH('a) - 1) x"
      by (simp only: flip_bit_eq_if if_True)
    also have "\<dots> = x - 2 ^ (LENGTH('a) - 1)"
      using True by (simp only: unset_bit_eq of_bool_eq mult_1 if_True)
    also have "\<dots> = x + 2 ^ (LENGTH('a) - 1)"
      using neg_half[where 'a='a] by (simp only: diff_conv_add_uminus)
    finally show ?thesis .
  next
    case False
    then have "flip_bit (LENGTH('a) - 1) x = set_bit (LENGTH('a) - 1) x"
      by (simp only: flip_bit_eq_if if_False)
    also have "\<dots> = x + 2 ^ (LENGTH('a) - 1)"
      using False by (simp only: set_bit_eq of_bool_eq mult_1 if_True not_False_eq_True)
    finally show ?thesis .
  qed
  finally show ?thesis .
qed

lemma sint_add_sign:
  "sint ((x::'a::len word) + 2 ^ (LENGTH('a) - 1)) = signed_take_bit (LENGTH('a) - 1) (uint x + 2 ^ (LENGTH('a) - 1))"
proof -
  have "x + 2 ^ (LENGTH('a) - 1) = word_of_int (uint x + 2 ^ (LENGTH('a) - 1))"
    by simp
  then show ?thesis by (simp only: sint_sbintrunc')
qed

lemma signed_take_bit_shifted:
  "signed_take_bit (LENGTH('a::len) - 1) (uint (x::'a word) + 2 ^ (LENGTH('a) - 1)) = uint x - 2 ^ (LENGTH('a) - 1)"
proof -
  have S: "Suc (LENGTH('a) - 1) = LENGTH('a)" by simp
  have "(2::int) ^ (LENGTH('a) - 1) + 2 ^ (LENGTH('a) - 1) = 2 ^ LENGTH('a)"
    using power_Suc[of "2::int" "LENGTH('a) - 1"] by (simp add: S)
  then have "uint x + 2 ^ (LENGTH('a) - 1) + 2 ^ (LENGTH('a) - 1) = uint x + 2 ^ LENGTH('a)"
    by simp
  then have "take_bit LENGTH('a) (uint x + 2 ^ (LENGTH('a) - 1) + 2 ^ (LENGTH('a) - 1)) = uint x"
    by (simp add: take_bit_eq_mod mod_pos_pos_trivial uint_lt2p)
  then show ?thesis
    by (simp add: signed_take_bit_eq_take_bit_shift S)
qed

lemma sint_xor_sign: "sint ((x::'a::len word) XOR push_bit (LENGTH('a) - 1) 1) = uint x - 2 ^ (LENGTH('a) - 1)"
  by (simp only: xor_sign_add sint_add_sign signed_take_bit_shifted)

lemma sless_xor_sign:
  "((x::'a::len word) XOR push_bit (LENGTH('a) - 1) 1) <s (y XOR push_bit (LENGTH('a) - 1) 1) \<longleftrightarrow> x < y"
  by (simp only: word_sless_alt sint_xor_sign word_less_def) simp

lemma less_xor_sign:
  "((x::'a::len word) XOR push_bit (LENGTH('a) - 1) 1) < (y XOR push_bit (LENGTH('a) - 1) 1) \<longleftrightarrow> x <s y"
proof -
  have i: "(z XOR push_bit (LENGTH('a) - 1) 1) XOR push_bit (LENGTH('a) - 1) 1 = z" for z :: "'a word"
    by (simp only: xor.assoc xor_self_eq xor.right_neutral)
  show ?thesis
    using sless_xor_sign[of "x XOR push_bit (LENGTH('a) - 1) 1" "y XOR push_bit (LENGTH('a) - 1) 1"]
    unfolding i by simp
qed

lemma xor_sign_8: "((x::8 word) XOR 0x80) < (y XOR 0x80) \<longleftrightarrow> x <s y"
  using less_xor_sign[of x y] by simp

lemma xor_sign_16: "((x::16 word) XOR 0x8000) <s (y XOR 0x8000) \<longleftrightarrow> x < y"
  using sless_xor_sign[of x y] by simp

lemma xor_twice: "((z::'a::len word) XOR m) XOR m = z"
  by (simp only: xor.assoc xor_self_eq xor.right_neutral)

lemma blend: 
  "((y::'a::len word) AND (if c then - 1 else 0)) OR (NOT (if c then - 1 else 0) AND x) = (if c then y else x)"
  by simp

lemma mmx_lane_signed_min:
  assumes "MM0_FOR_MIN M = MM0" "MM1_FOR_MIN M = MM1" "BIT_MASK_MMX M = None"
  shows "mmx_lane M x y = cmp_select (c_cmp SignedInt CMP_GT) x y"
  using assms
  by (simp add: mmx_lane_def Let_def pcmpgt_def pand_def pandn_def por_def cmp_select_def c_cmp_def c_greater_def)

lemma mmx_lane_signed_max:
  assumes "MM0_FOR_MIN M = MM1" "MM1_FOR_MIN M = MM0" "BIT_MASK_MMX M = None"
  shows "mmx_lane M x y = cmp_select (c_cmp SignedInt CMP_LT) x y"
  using assms
  by (simp add: mmx_lane_def Let_def pcmpgt_def pand_def pandn_def por_def cmp_select_def c_cmp_def c_greater_def)

lemma mmx_lane_unsigned_min:
  assumes "MM0_FOR_MIN M = MM0" "MM1_FOR_MIN M = MM1" "BIT_MASK_MMX M = Some 0x8000"
  shows "mmx_lane M x y = cmp_select (c_cmp UnsignedInt CMP_GT) x (y::16 word)"
  using assms
  by (simp add: mmx_lane_def Let_def pcmpgt_def pxor_def pand_def pandn_def por_def cmp_select_def c_cmp_def c_greater_def xor_sign_16)

lemma mmx_lane_unsigned_max:
  assumes "MM0_FOR_MIN M = MM1" "MM1_FOR_MIN M = MM0" "BIT_MASK_MMX M = Some 0x8000"
  shows "mmx_lane M x y = cmp_select (c_cmp UnsignedInt CMP_LT) x (y::16 word)"
  using assms
  by (simp add: mmx_lane_def Let_def pcmpgt_def pxor_def pand_def pandn_def por_def cmp_select_def c_cmp_def c_greater_def xor_sign_16)

lemma mmxex_lane_bytes:
  "mmxex_lane pminub (Some 0x80) x y = cmp_select (c_cmp SignedInt CMP_GT) x (y::8 word)"
  "mmxex_lane pmaxub (Some 0x80) x y = cmp_select (c_cmp SignedInt CMP_LT) x (y::8 word)"
  by (simp_all add: mmxex_lane_def Let_def packed_minmax_def pxor_def cmp_select_def c_cmp_def c_greater_def xor_sign_8 xor_twice)

lemma mmxex_lane_shorts:
  "mmxex_lane pminsw None x y = cmp_select (c_cmp SignedInt CMP_GT) x (y::16 word)"
  "mmxex_lane pmaxsw None x y = cmp_select (c_cmp SignedInt CMP_LT) x (y::16 word)"
  by (simp_all add: mmxex_lane_def Let_def packed_minmax_def cmp_select_def c_cmp_def c_greater_def)

lemma mmxex_lane_ushorts:
  "mmxex_lane pminsw (Some 0x8000) x y = cmp_select (c_cmp UnsignedInt CMP_GT) x (y::16 word)"
  "mmxex_lane pmaxsw (Some 0x8000) x y = cmp_select (c_cmp UnsignedInt CMP_LT) x (y::16 word)"
  by (simp_all add: mmxex_lane_def Let_def packed_minmax_def pxor_def cmp_select_def c_cmp_def c_greater_def xor_sign_16 xor_twice)

section \<open>The integer kernels compute the element-wise minimum and maximum\<close>

lemma cmp_select_int_minmax:
  "T \<noteq> Floating \<Longrightarrow> cmp_select (c_cmp T c) x y = int_minmax T c x y"
  by (cases T; cases c)
     (simp_all add: cmp_select_def c_cmp_def c_greater_def int_minmax_def word_sless_alt word_less_def)

lemma Arrays_minmax_int_elementwise:
  fixes M :: "'a::len word minmax_macros"
  assumes sz: "int (LENGTH('a) div 8) \<in> {1, 2, 4, 8}"
    and mmx: "\<And>x y. mmx_lane M x y = cmp_select (c_cmp (TYPE_kind M) (CMP M)) x y"
    and mmxex: "\<And>i x y. MINMAX_MMXEX M = Some i \<Longrightarrow>
          mmxex_lane i (BIT_MASK_SSE M) x y = cmp_select (c_cmp (TYPE_kind M) (CMP M)) x y"
    and a: "Aofs + Len \<le> length a" and b: "Bofs + Len \<le> length b"
  shows "snd (Arrays_minmax_int_list M CpuInfo a_addr a Aofs b Bofs Len) =
           elementwise_list (cmp_select (c_cmp (TYPE_kind M) (CMP M))) a Aofs b Bofs Len"
proof -
  let ?cmp = "c_cmp (TYPE_kind M) (CMP M)"
  have 1: "aligned_branch_list ?cmp (mmx_lane M) 32 (int (LENGTH('a) div 8)) a_addr a Aofs b Bofs Len =
      elementwise_list (cmp_select ?cmp) a Aofs b Bofs Len"
    by (rule aligned_branch_elementwise[OF sz _ a b]) (auto simp add: mmx fun_eq_iff)
  have 2: "aligned_branch_list ?cmp (mmxex_lane i (BIT_MASK_SSE M)) U (int (LENGTH('a) div 8)) a_addr a Aofs b Bofs Len =
      elementwise_list (cmp_select ?cmp) a Aofs b Bofs Len" if "MINMAX_MMXEX M = Some i" "U \<in> {32, 64}" for i U
    by (rule aligned_branch_elementwise[OF sz that(2) a b]) (auto simp add: mmxex[OF that(1)] fun_eq_iff)
  have 3: "BODY_LOOP_list ?cmp (int (LENGTH('a) div 8)) a Aofs b Bofs Len = elementwise_list (cmp_select ?cmp) a Aofs b Bofs Len"
    by (rule BODY_LOOP_elementwise[OF sz a])
  show ?thesis
    unfolding Arrays_minmax_int_list_def Let_def
    by (cases "MINMAX_MMXEX M") (auto simp add: 1 2 3)
qed

lemma byte_kernels_elementwise:
  assumes "M \<in> set byte_kernels" "Aofs + Len \<le> length a" "Bofs + Len \<le> length b"
  shows "snd (Arrays_minmax_int_list M CpuInfo a_addr a Aofs b Bofs Len) =
           elementwise_list (int_minmax (TYPE_kind M) (CMP M)) a Aofs b Bofs Len"
proof -
  have k: "TYPE_kind M \<noteq> Floating" using assms(1) by (auto simp add: byte_kernels_def min_jbyte_def max_jbyte_def)
  have "snd (Arrays_minmax_int_list M CpuInfo a_addr a Aofs b Bofs Len) =
           elementwise_list (cmp_select (c_cmp (TYPE_kind M) (CMP M))) a Aofs b Bofs Len"
  proof (rule Arrays_minmax_int_elementwise[OF _ _ _ assms(2,3)])
    show "int (LENGTH(8) div 8) \<in> {1, 2, 4, 8}" by simp
    show "mmx_lane M x y = cmp_select (c_cmp (TYPE_kind M) (CMP M)) x y" for x y
      using assms(1) mmx_lane_signed_min[of M x y] mmx_lane_signed_max[of M x y]
      by (auto simp add: byte_kernels_def min_jbyte_def max_jbyte_def)
    show "mmxex_lane i (BIT_MASK_SSE M) x y = cmp_select (c_cmp (TYPE_kind M) (CMP M)) x y"
      if "MINMAX_MMXEX M = Some i" for i x y
      using assms(1) that mmxex_lane_bytes[of x y]
      by (auto simp add: byte_kernels_def min_jbyte_def max_jbyte_def)
  qed
  then show ?thesis by (simp add: cmp_select_int_minmax[OF k, abs_def])
qed

lemma short_kernels_elementwise:
  assumes "M \<in> set short_kernels" "Aofs + Len \<le> length a" "Bofs + Len \<le> length b"
  shows "snd (Arrays_minmax_int_list M CpuInfo a_addr a Aofs b Bofs Len) =
           elementwise_list (int_minmax (TYPE_kind M) (CMP M)) a Aofs b Bofs Len"
proof -
  have k: "TYPE_kind M \<noteq> Floating" using assms(1)
    by (auto simp add: short_kernels_def min_jshort_def max_jshort_def minu_short_def maxu_short_def)
  have "snd (Arrays_minmax_int_list M CpuInfo a_addr a Aofs b Bofs Len) =
           elementwise_list (cmp_select (c_cmp (TYPE_kind M) (CMP M))) a Aofs b Bofs Len"
  proof (rule Arrays_minmax_int_elementwise[OF _ _ _ assms(2,3)])
    show "int (LENGTH(16) div 8) \<in> {1, 2, 4, 8}" by simp
    show "mmx_lane M x y = cmp_select (c_cmp (TYPE_kind M) (CMP M)) x y" for x y
      using assms(1) mmx_lane_signed_min[of M x y] mmx_lane_signed_max[of M x y]
        mmx_lane_unsigned_min[of M x y] mmx_lane_unsigned_max[of M x y]
      by (auto simp add: short_kernels_def min_jshort_def max_jshort_def minu_short_def maxu_short_def)
    show "mmxex_lane i (BIT_MASK_SSE M) x y = cmp_select (c_cmp (TYPE_kind M) (CMP M)) x y"
      if "MINMAX_MMXEX M = Some i" for i x y
      using assms(1) that mmxex_lane_shorts[of x y] mmxex_lane_ushorts[of x y]
      by (auto simp add: short_kernels_def min_jshort_def max_jshort_def minu_short_def maxu_short_def)
  qed
  then show ?thesis by (simp add: cmp_select_int_minmax[OF k, abs_def])
qed

lemma int_kernels_elementwise:
  assumes "M \<in> set int_kernels" "Aofs + Len \<le> length a" "Bofs + Len \<le> length b"
  shows "snd (Arrays_minmax_int_list M CpuInfo a_addr a Aofs b Bofs Len) =
           elementwise_list (int_minmax (TYPE_kind M) (CMP M)) a Aofs b Bofs Len"
proof -
  have k: "TYPE_kind M \<noteq> Floating" using assms(1) by (auto simp add: int_kernels_def min_jint_def max_jint_def)
  have "snd (Arrays_minmax_int_list M CpuInfo a_addr a Aofs b Bofs Len) =
           elementwise_list (cmp_select (c_cmp (TYPE_kind M) (CMP M))) a Aofs b Bofs Len"
  proof (rule Arrays_minmax_int_elementwise[OF _ _ _ assms(2,3)])
    show "int (LENGTH(32) div 8) \<in> {1, 2, 4, 8}" by simp
    show "mmx_lane M x y = cmp_select (c_cmp (TYPE_kind M) (CMP M)) x y" for x y
      using assms(1) mmx_lane_signed_min[of M x y] mmx_lane_signed_max[of M x y]
      by (auto simp add: int_kernels_def min_jint_def max_jint_def)
    show "mmxex_lane i (BIT_MASK_SSE M) x y = cmp_select (c_cmp (TYPE_kind M) (CMP M)) x y"
      if "MINMAX_MMXEX M = Some i" for i x y
      using assms(1) that
      by (auto simp add: int_kernels_def min_jint_def max_jint_def)
  qed
  then show ?thesis by (simp add: cmp_select_int_minmax[OF k, abs_def])
qed

lemma jlong_elementwise:
  assumes "Aofs + Len \<le> length a"
  shows "snd (min_jlong_list CpuInfo a Aofs b Bofs Len) = elementwise_list (int_minmax SignedInt CMP_GT) a Aofs b Bofs Len"
    and "snd (max_jlong_list CpuInfo a Aofs b Bofs Len) = elementwise_list (int_minmax SignedInt CMP_LT) a Aofs b Bofs Len"
proof -
  have s: "cmp_select (c_cmp SignedInt c) = (int_minmax SignedInt c :: 64 word \<Rightarrow> 64 word \<Rightarrow> 64 word)" for c
    by (auto simp add: fun_eq_iff cmp_select_int_minmax)
  show "snd (min_jlong_list CpuInfo a Aofs b Bofs Len) = elementwise_list (int_minmax SignedInt CMP_GT) a Aofs b Bofs Len"
    using BODY_LOOP_elementwise[OF _ assms, of 8 "c_cmp SignedInt CMP_GT" b Bofs]
    by (simp add: min_jlong_list_def MINBODY_LOOP_list_def s)
  show "snd (max_jlong_list CpuInfo a Aofs b Bofs Len) = elementwise_list (int_minmax SignedInt CMP_LT) a Aofs b Bofs Len"
    using BODY_LOOP_elementwise[OF _ assms, of 8 "c_cmp SignedInt CMP_LT" b Bofs]
    by (simp add: max_jlong_list_def MAXBODY_LOOP_list_def s)
qed

section \<open>What fill writes\<close>

text \<open>
  The two branches of the header on the bytes \<open>V\<close> that an assignment of the fill value
  stores and on a length that is a natural number: what \<open>fill_sse\<close> and \<open>fill_c\<close> are for a
  range of fewer than \<open>2^31\<close> bytes, where no 32-bit operation wraps.
\<close>

definition fill_sse_bytes :: "64 word \<Rightarrow> 8 word list \<Rightarrow> nat \<Rightarrow> nat \<Rightarrow> mem \<Rightarrow> mem" where
  "fill_sse_bytes CpuInfo V pa Len m =
    (let sizeof_TYPE = length V;
         filler = concat (replicate (32 div sizeof_TYPE) V);
         fillerDisp = 0;
         len = Len * sizeof_TYPE;
         disp = pa AND 31;
         lenStart = 0;
         (lenStart, fillerDisp, len) =
           (if disp \<noteq> 0 then (32 - disp, (32 - disp) AND 15, len - (32 - disp))
            else (lenStart, fillerDisp, len));
         lenEnd = len AND 15;
         len = len div 16;
         m = rep_movsb_filler filler 0 pa lenStart m;
         edi = pa + lenStart;
         xmm0 = take 16 (drop fillerDisp filler);
         ecx = drop_bit 3 len;
         m = (case fill_store_choice CpuInfo ecx of
                None \<Rightarrow> m
              | Some i \<Rightarrow> fill_loop128 i xmm0 ecx edi m);
         edi = edi + 128 * ecx;
         ecx = len AND 7;
         m = fill_loop16 xmm0 ecx edi m;
         edi = edi + 16 * ecx
     in rep_movsb_filler filler fillerDisp edi lenEnd m)"

definition fill_c_bytes :: "8 word list \<Rightarrow> nat \<Rightarrow> nat \<Rightarrow> mem \<Rightarrow> mem" where
  "fill_c_bytes V pa Len m =
    (if length V = 1 then memset m pa (hd V) Len
     else
      (let (len, lenEnd) = LOOP_PREFIX (8 * int (length V)) (int (length V)) (int Len);
           m = store_loop8 V (nat len) pa m;
           pa = pa + 8 * length V * nat len
       in store_loop V (nat lenEnd) pa m))"

lemma unsigned32_id: "0 \<le> x \<Longrightarrow> x < 2 ^ 32 \<Longrightarrow> unsigned32 x = x"
  by (simp add: unsigned32_def)

lemma jint_id: "- (2 ^ 31) \<le> x \<Longrightarrow> x < 2 ^ 31 \<Longrightarrow> jint x = x"
  by (simp add: jint_def)

lemma and_consts_nat:
  "(x::nat) AND 7 = x mod 8" "(x::nat) AND 15 = x mod 16" "(x::nat) AND 31 = x mod 32"
  using take_bit_eq_mask[of 3 x] take_bit_eq_mask[of 4 x] take_bit_eq_mask[of 5 x]
  by (simp_all add: take_bit_eq_mod mask_eq_exp_minus_1)

text \<open>
  \<open>pattern_store V c p n m\<close>: memory \<open>m\<close> with the bytes \<open>V\<close> repeated over the \<open>n\<close> addresses
  from \<open>p\<close>, the repetition starting at the anchor \<open>c\<close>.
\<close>

definition pattern_store :: "8 word list \<Rightarrow> nat \<Rightarrow> nat \<Rightarrow> nat \<Rightarrow> mem \<Rightarrow> mem" where
  "pattern_store V c p n m = (\<lambda>x. if p \<le> x \<and> x < p + n then V ! ((x - c) mod length V) else m x)"

lemma pattern_store_0 [simp]: "pattern_store V c p 0 m = m"
  by (auto simp add: pattern_store_def fun_eq_iff)

lemma pattern_store_append:
  "pattern_store V c (p + n) k (pattern_store V c p n m) = pattern_store V c p (n + k) m"
  by (auto simp add: pattern_store_def fun_eq_iff)

lemma store_bytes_pattern:
  "store_bytes m p V = pattern_store V p p (length V) m"
  by (auto simp add: store_bytes_def pattern_store_def fun_eq_iff)

lemma pattern_store_anchor:
  assumes "c \<le> p" "(p - c) mod length V = 0"
  shows "pattern_store V p p n m = pattern_store V c p n m"
proof -
  have "(x - p) mod length V = (x - c) mod length V" if "p \<le> x" for x
  proof -
    have "x - c = (x - p) + (p - c)" using that assms(1) by simp
    then show ?thesis using assms(2) by (simp add: mod_add_right_eq[symmetric])
  qed
  then show ?thesis by (auto simp add: pattern_store_def fun_eq_iff)
qed

lemma store_loop_pattern:
  "store_loop V n pa m = pattern_store V pa pa (n * length V) m"
proof (induction n arbitrary: pa m)
  case 0
  then show ?case by simp
next
  case (Suc n)
  have "store_loop V (Suc n) pa m =
      pattern_store V (pa + length V) (pa + length V) (n * length V) (pattern_store V pa pa (length V) m)"
    by (simp add: Suc.IH store_bytes_pattern)
  also have "\<dots> = pattern_store V pa (pa + length V) (n * length V) (pattern_store V pa pa (length V) m)"
    by (rule pattern_store_anchor) simp_all
  also have "\<dots> = pattern_store V pa pa (length V + n * length V) m"
    by (rule pattern_store_append)
  finally show ?case by simp
qed

lemma fold_store_pattern:
  "fold (\<lambda>k m. store_bytes m (pa + k * length V) V) [0..<n] m = pattern_store V pa pa (n * length V) m"
proof (induction n)
  case 0
  then show ?case by simp
next
  case (Suc n)
  have "fold (\<lambda>k m. store_bytes m (pa + k * length V) V) [0..<Suc n] m =
      store_bytes (fold (\<lambda>k m. store_bytes m (pa + k * length V) V) [0..<n] m) (pa + n * length V) V"
    by simp
  also have "\<dots> =
      pattern_store V (pa + n * length V) (pa + n * length V) (length V) (pattern_store V pa pa (n * length V) m)"
    unfolding Suc.IH by (rule store_bytes_pattern)
  also have "\<dots> = pattern_store V pa (pa + n * length V) (length V) (pattern_store V pa pa (n * length V) m)"
    by (rule pattern_store_anchor) simp_all
  also have "\<dots> = pattern_store V pa pa (n * length V + length V) m"
    by (rule pattern_store_append)
  finally show ?case by (simp add: add.commute)
qed

lemma store_loop8_pattern:
  "store_loop8 V n pa m = pattern_store V pa pa (n * (8 * length V)) m"
proof (induction n arbitrary: pa m)
  case 0
  then show ?case by simp
next
  case (Suc n)
  have "store_loop8 V (Suc n) pa m =
      pattern_store V (pa + 8 * length V) (pa + 8 * length V) (n * (8 * length V))
        (pattern_store V pa pa (8 * length V) m)"
    by (simp add: Suc.IH fold_store_pattern)
  also have "\<dots> = pattern_store V pa (pa + 8 * length V) (n * (8 * length V)) (pattern_store V pa pa (8 * length V) m)"
    by (rule pattern_store_anchor) simp_all
  also have "\<dots> = pattern_store V pa pa (8 * length V + n * (8 * length V)) m"
    by (rule pattern_store_append)
  finally show ?case by simp
qed

lemma memset_pattern: "length V = 1 \<Longrightarrow> memset m pa (hd V) Len = pattern_store V pa pa Len m"
  by (cases V) (auto simp add: memset_def store_bytes_def pattern_store_def fun_eq_iff)

lemma fill_c_pattern:
  assumes "int (length V) \<in> {1, 2, 4, 8}"
  shows "fill_c_bytes V pa Len m = pattern_store V pa pa (Len * length V) m"
proof (cases "length V = 1")
  case True
  then show ?thesis by (simp add: fill_c_bytes_def memset_pattern)
next
  case False
  have p: "LOOP_PREFIX (8 * int (length V)) (int (length V)) (int Len) = (int (Len div 8), int (Len mod 8))"
    using LOOP_PREFIX_eq[OF assms, of 8 "int Len"] by (simp add: zdiv_int zmod_int)
  have "fill_c_bytes V pa Len m =
      store_loop V (Len mod 8) (pa + 8 * length V * (Len div 8)) (store_loop8 V (Len div 8) pa m)"
    using False by (simp add: fill_c_bytes_def p Let_def)
  also have "\<dots> = pattern_store V (pa + (Len div 8) * (8 * length V)) (pa + (Len div 8) * (8 * length V))
      (Len mod 8 * length V) (pattern_store V pa pa ((Len div 8) * (8 * length V)) m)"
    by (simp add: store_loop_pattern store_loop8_pattern mult.commute mult.left_commute)
  also have "\<dots> = pattern_store V pa (pa + (Len div 8) * (8 * length V))
      (Len mod 8 * length V) (pattern_store V pa pa ((Len div 8) * (8 * length V)) m)"
    by (rule pattern_store_anchor) simp_all
  also have "\<dots> = pattern_store V pa pa ((Len div 8) * (8 * length V) + Len mod 8 * length V) m"
    by (rule pattern_store_append)
  also have "(Len div 8) * (8 * length V) + Len mod 8 * length V = Len * length V"
  proof -
    have "(Len div 8) * (8 * length V) + Len mod 8 * length V = (Len div 8 * 8 + Len mod 8) * length V"
      by (simp only: add_mult_distrib mult.assoc)
    also have "Len div 8 * 8 + Len mod 8 = Len" by simp
    finally show ?thesis .
  qed
  finally show ?thesis .
qed

lemma rep_movsb_filler_eq:
  "rep_movsb_filler F esi edi n m =
     (\<lambda>x. if edi \<le> x \<and> x < edi + n then F ! (esi + (x - edi)) else m x)"
proof (induction n arbitrary: esi edi m)
  case 0
  then show ?case by (auto simp add: fun_eq_iff)
next
  case (Suc n)
  have a: "Suc (esi + x - Suc edi) = esi + x - edi" if "Suc edi \<le> x" for x
    using that by arith
  show ?case
    unfolding rep_movsb_filler.simps Suc.IH
    by (auto simp add: fun_eq_iff a)
qed

lemma concat_replicate_nth:
  "i < n * length V \<Longrightarrow> concat (replicate n V) ! i = V ! (i mod length V)"
proof (induction n arbitrary: i)
  case 0
  then show ?case by simp
next
  case (Suc n)
  show ?case
  proof (cases "i < length V")
    case True
    then show ?thesis by (simp add: nth_append)
  next
    case False
    then have "i - length V < n * length V" using Suc.prems by simp
    from Suc.IH[OF this] False show ?thesis
      by (simp add: nth_append le_mod_geq)
  qed
qed

lemma filler_props:
  assumes "int (length V) \<in> {1, 2, 4, 8}"
  shows "length (concat (replicate (32 div length V) V)) = 32"
    and "i < 32 \<Longrightarrow> concat (replicate (32 div length V) V) ! i = V ! (i mod length V)"
proof -
  have d: "32 div length V * length V = 32" using assms by auto
  show "length (concat (replicate (32 div length V) V)) = 32"
    using d by (simp add: length_concat sum_list_replicate)
  show "concat (replicate (32 div length V) V) ! i = V ! (i mod length V)" if "i < 32"
    using that d by (intro concat_replicate_nth) simp
qed

lemma mod_shift:
  assumes "c \<le> p" "p \<le> x" "(p - c) mod s = e mod s"
  shows "(x - c) mod s = (e + (x - p)) mod (s::nat)"
proof -
  have "x - c = (p - c) + (x - p)" using assms(1,2) by simp
  then have "(x - c) mod s = ((p - c) mod s + (x - p)) mod s" by (simp add: mod_add_left_eq)
  also have "\<dots> = (e mod s + (x - p)) mod s" by (simp only: assms(3))
  also have "\<dots> = (e + (x - p)) mod s" by (simp add: mod_add_left_eq)
  finally show ?thesis .
qed

lemma rep_movsb_filler_pattern:
  assumes sz: "int (length V) \<in> {1, 2, 4, 8}"
    and c: "c \<le> edi" and e: "(edi - c) mod length V = esi mod length V" and n: "esi + n \<le> 32"
  shows "rep_movsb_filler (concat (replicate (32 div length V) V)) esi edi n m = pattern_store V c edi n m"
proof -
  have "concat (replicate (32 div length V) V) ! (esi + (x - edi)) = V ! ((x - c) mod length V)"
    if "edi \<le> x" "x < edi + n" for x
  proof -
    have "esi + (x - edi) < 32" using that n by simp
    then have "concat (replicate (32 div length V) V) ! (esi + (x - edi)) = V ! ((esi + (x - edi)) mod length V)"
      by (rule filler_props(2)[OF sz])
    also have "(esi + (x - edi)) mod length V = (x - c) mod length V"
      using mod_shift[OF c that(1) e] by simp
    finally show ?thesis .
  qed
  then show ?thesis
    by (auto simp add: rep_movsb_filler_eq pattern_store_def fun_eq_iff)
qed

lemma store16_pattern:
  assumes sz: "int (length V) \<in> {1, 2, 4, 8}" and fd: "fd < 16"
    and c: "c \<le> p" and e: "(p - c) mod length V = fd mod length V"
  shows "store16 i m p (take 16 (drop fd (concat (replicate (32 div length V) V)))) = pattern_store V c p 16 m"
proof -
  let ?F = "concat (replicate (32 div length V) V)"
  have l: "length (take 16 (drop fd ?F)) = 16" using fd by (simp add: filler_props(1)[OF sz])
  have "take 16 (take 16 (drop fd ?F)) ! (x - p) = V ! ((x - c) mod length V)"
    if "p \<le> x" "x < p + 16" for x
  proof -
    have k: "x - p < 16" using that by simp
    then have "take 16 (take 16 (drop fd ?F)) ! (x - p) = ?F ! (fd + (x - p))"
      using fd by (simp add: filler_props(1)[OF sz])
    also have "\<dots> = V ! ((fd + (x - p)) mod length V)"
      using k fd by (intro filler_props(2)[OF sz]) simp
    also have "(fd + (x - p)) mod length V = (x - c) mod length V"
      using mod_shift[OF c that(1) e] by simp
    finally show ?thesis .
  qed
  then show ?thesis
    using l by (auto simp add: store16_def store_bytes_def pattern_store_def fun_eq_iff)
qed

lemma sz_dvd_16: "int (length V) \<in> {1, 2, 4, 8} \<Longrightarrow> length V dvd 16"
  by auto

lemma shifted_16:
  assumes sz: "int (length V) \<in> {1, 2, 4, 8}" and c: "c \<le> p" and e: "(p - c) mod length V = fd mod length V"
  shows "(p + 16 * k - c) mod length V = fd mod length V"
proof -
  have "p + 16 * k - c = (p - c) + 16 * k" using c by simp
  moreover have "length V dvd 16 * k" using sz_dvd_16[OF sz] by (rule dvd_mult2)
  then have "(16 * k) mod length V = 0" by (simp add: dvd_eq_mod_eq_0)
  ultimately show ?thesis using e by (simp add: mod_add_eq[symmetric])
qed

lemma fold_store16_pattern:
  assumes sz: "int (length V) \<in> {1, 2, 4, 8}" and fd: "fd < 16"
    and c: "c \<le> p" and e: "(p - c) mod length V = fd mod length V"
  shows "fold (\<lambda>k m. store16 i m (p + 16 * k) (take 16 (drop fd (concat (replicate (32 div length V) V))))) [0..<n] m =
     pattern_store V c p (16 * n) m"
proof (induction n)
  case 0
  then show ?case by simp
next
  case (Suc n)
  let ?X = "take 16 (drop fd (concat (replicate (32 div length V) V)))"
  have "fold (\<lambda>k m. store16 i m (p + 16 * k) ?X) [0..<Suc n] m =
      store16 i (fold (\<lambda>k m. store16 i m (p + 16 * k) ?X) [0..<n] m) (p + 16 * n) ?X"
    by simp
  also have "\<dots> = pattern_store V c (p + 16 * n) 16 (pattern_store V c p (16 * n) m)"
    unfolding Suc.IH
    by (rule store16_pattern[OF sz fd]) (use c in simp, rule shifted_16[OF sz c e])
  also have "\<dots> = pattern_store V c p (16 * n + 16) m"
    by (rule pattern_store_append)
  finally show ?case by (simp add: add.commute)
qed

lemma fill_loop16_pattern:
  assumes sz: "int (length V) \<in> {1, 2, 4, 8}" and fd: "fd < 16"
    and c: "c \<le> p" and e: "(p - c) mod length V = fd mod length V"
  shows "fill_loop16 (take 16 (drop fd (concat (replicate (32 div length V) V)))) n p m =
     pattern_store V c p (16 * n) m"
  using c e
proof (induction n arbitrary: p m)
  case 0
  then show ?case by simp
next
  case (Suc n)
  let ?X = "take 16 (drop fd (concat (replicate (32 div length V) V)))"
  have e': "(p + 16 - c) mod length V = fd mod length V"
    using shifted_16[OF sz Suc.prems, of 1] by simp
  have "fill_loop16 ?X (Suc n) p m = pattern_store V c (p + 16) (16 * n) (pattern_store V c p 16 m)"
    using Suc.IH[OF _ e'] Suc.prems(1) by (simp add: store16_pattern[OF sz fd Suc.prems])
  also have "\<dots> = pattern_store V c p (16 + 16 * n) m"
    by (rule pattern_store_append)
  finally show ?case by simp
qed

lemma fill_loop128_pattern:
  assumes sz: "int (length V) \<in> {1, 2, 4, 8}" and fd: "fd < 16"
    and c: "c \<le> p" and e: "(p - c) mod length V = fd mod length V"
  shows "fill_loop128 i (take 16 (drop fd (concat (replicate (32 div length V) V)))) n p m =
     pattern_store V c p (128 * n) m"
  using c e
proof (induction n arbitrary: p m)
  case 0
  then show ?case by simp
next
  case (Suc n)
  let ?X = "take 16 (drop fd (concat (replicate (32 div length V) V)))"
  have e': "(p + 128 - c) mod length V = fd mod length V"
    using shifted_16[OF sz Suc.prems, of 8] by simp
  have "fill_loop128 i ?X (Suc n) p m = pattern_store V c (p + 128) (128 * n) (pattern_store V c p 128 m)"
    using Suc.IH[OF _ e'] Suc.prems(1)
    by (simp add: fill_pass128_def fold_store16_pattern[OF sz fd Suc.prems, of i 8, simplified])
  also have "\<dots> = pattern_store V c p (128 + 128 * n) m"
    by (rule pattern_store_append)
  finally show ?case by simp
qed

lemma fill_sse_pattern:
  assumes sz: "int (length V) \<in> {1, 2, 4, 8}" and big: "32 < Len * length V"
  shows "fill_sse_bytes CpuInfo V pa Len m = pattern_store V pa pa (Len * length V) m"
proof -
  let ?F = "concat (replicate (32 div length V) V)"
  define L where "L = Len * length V"
  define ls where "ls = (if pa mod 32 \<noteq> 0 then 32 - pa mod 32 else 0)"
  define fd where "fd = ls mod 16"
  define q where "q = (L - ls) div 16"
  define lenEnd where "lenEnd = (L - ls) mod 16"
  define X where "X = take 16 (drop fd ?F)"
  define e1 where "e1 = pa + ls"
  define e2 where "e2 = e1 + 128 * (q div 8)"
  define e3 where "e3 = e2 + 16 * (q mod 8)"
  have ls: "ls < 32" by (simp add: ls_def)
  have fd: "fd < 16" by (simp add: fd_def)
  have dv: "length V dvd 16" by (rule sz_dvd_16[OF sz])
  have fdm: "fd mod length V = ls mod length V"
    unfolding fd_def using dv by (rule mod_mod_cancel)
  have r1: "(e1 - pa) mod length V = fd mod length V" by (simp add: e1_def fdm)
  have r2: "(e2 - pa) mod length V = fd mod length V"
    using shifted_16[OF sz _ r1, of "8 * (q div 8)"] by (simp add: e2_def e1_def)
  have r3: "(e3 - pa) mod length V = fd mod length V"
    using shifted_16[OF sz _ r2, of "q mod 8"] by (simp add: e3_def e2_def e1_def)
  have unfold: "fill_sse_bytes CpuInfo V pa Len m =
      rep_movsb_filler ?F fd e3 lenEnd
        (fill_loop16 X (q mod 8) e2
          (case fill_store_choice CpuInfo (q div 8) of
             None \<Rightarrow> rep_movsb_filler ?F 0 pa ls m
           | Some i \<Rightarrow> fill_loop128 i X (q div 8) e1 (rep_movsb_filler ?F 0 pa ls m)))"
  proof -
    have t: "(if pa mod 32 \<noteq> 0
              then (32 - pa mod 32, (32 - pa mod 32) mod 16, Len * length V - (32 - pa mod 32))
              else (0, 0, Len * length V)) = (ls, fd, L - ls)"
      by (simp add: ls_def fd_def L_def)
    have d: "drop_bit 3 x = x div 8" for x :: nat by (simp add: drop_bit_eq_div)
    show ?thesis
      unfolding fill_sse_bytes_def Let_def and_consts_nat d
      unfolding t prod.case
      unfolding q_def lenEnd_def X_def e1_def e2_def e3_def
      by (rule refl)
  qed
  have h: "rep_movsb_filler ?F 0 pa ls m = pattern_store V pa pa ls m"
    using ls by (intro rep_movsb_filler_pattern[OF sz]) simp_all
  have b: "(case fill_store_choice CpuInfo (q div 8) of
             None \<Rightarrow> pattern_store V pa pa ls m
           | Some i \<Rightarrow> fill_loop128 i X (q div 8) e1 (pattern_store V pa pa ls m)) =
        pattern_store V pa e1 (128 * (q div 8)) (pattern_store V pa pa ls m)"
  proof (cases "fill_store_choice CpuInfo (q div 8)")
    case None
    then have "q div 8 = 0" by (simp add: fill_store_choice_def Let_def split: if_splits)
    with None show ?thesis by simp
  next
    case (Some i)
    have "fill_loop128 i X (q div 8) e1 M = pattern_store V pa e1 (128 * (q div 8)) M" for M
      unfolding X_def by (rule fill_loop128_pattern[OF sz fd _ r1]) (simp add: e1_def)
    with Some show ?thesis by simp
  qed
  have l16: "fill_loop16 X (q mod 8) e2 M = pattern_store V pa e2 (16 * (q mod 8)) M" for M
    unfolding X_def by (rule fill_loop16_pattern[OF sz fd _ r2]) (simp add: e1_def e2_def)
  have tl: "rep_movsb_filler ?F fd e3 lenEnd M = pattern_store V pa e3 lenEnd M" for M
    using fd by (intro rep_movsb_filler_pattern[OF sz _ r3]) (simp_all add: e1_def e2_def e3_def lenEnd_def)
  have "fill_sse_bytes CpuInfo V pa Len m =
      pattern_store V pa e3 lenEnd
        (pattern_store V pa e2 (16 * (q mod 8))
          (pattern_store V pa e1 (128 * (q div 8)) (pattern_store V pa pa ls m)))"
    unfolding unfold h b l16 tl by (rule refl)
  also have "\<dots> = pattern_store V pa pa (ls + 128 * (q div 8) + 16 * (q mod 8) + lenEnd) m"
    unfolding e1_def e2_def e3_def by (simp only: pattern_store_append add.assoc)
  also have "ls + 128 * (q div 8) + 16 * (q mod 8) + lenEnd = L"
  proof -
    have "8 * (q div 8) + q mod 8 = q" by simp
    then have "128 * (q div 8) + 16 * (q mod 8) = 16 * q" by linarith
    then have "128 * (q div 8) + 16 * (q mod 8) + lenEnd = L - ls"
      by (simp add: q_def lenEnd_def)
    moreover have "ls \<le> L" using ls big by (simp add: L_def)
    ultimately show ?thesis by simp
  qed
  finally show ?thesis by (simp add: L_def)
qed

lemma load_pattern_store:
  assumes sz: "0 < length V" and i: "B \<le> i" "i < B + n"
  shows "load_bytes (pattern_store V (a + B * length V) (a + B * length V) (n * length V) m)
           (a + i * length V) (length V) = V"
proof (rule nth_equalityI)
  show "length (load_bytes (pattern_store V (a + B * length V) (a + B * length V) (n * length V) m)
           (a + i * length V) (length V)) = length V"
    by (simp add: load_bytes_def)
next
  fix k assume "k < length (load_bytes (pattern_store V (a + B * length V) (a + B * length V) (n * length V) m)
           (a + i * length V) (length V))"
  then have k: "k < length V" by (simp add: load_bytes_def)
  obtain d where d: "i = B + d" "d < n" using i by (metis add_diff_inverse_nat less_diff_conv2 not_le add.commute)
  have lo: "a + B * length V \<le> a + i * length V + k" using d by (simp add: add_mult_distrib)
  have "d * length V + k < d * length V + length V" using k by simp
  also have "\<dots> = Suc d * length V" by simp
  also have "\<dots> \<le> n * length V" using d(2) by (intro mult_le_mono1) simp
  finally have hi: "a + i * length V + k < a + B * length V + n * length V"
    using d by (simp add: add_mult_distrib)
  have "a + i * length V + k - (a + B * length V) = d * length V + k"
    using d by (simp add: add_mult_distrib)
  then have md: "(a + i * length V + k - (a + B * length V)) mod length V = k"
    using k by simp
  show "load_bytes (pattern_store V (a + B * length V) (a + B * length V) (n * length V) m)
           (a + i * length V) (length V) ! k = V ! k"
    using k lo hi md by (simp add: load_bytes_def pattern_store_def)
qed

text \<open>The bytes of an element, and the two branches when no 32-bit operation wraps.\<close>

lemma length_to_bytes [simp]: "length (to_bytes V) = sizeof V"
  by (simp add: to_bytes_def sizeof_def)

lemma bit_of_bytes:
  "bit (of_bytes bs :: 'a::len word) n \<longleftrightarrow>
     n < LENGTH('a) \<and> n div 8 < length bs \<and> bit (bs ! (n div 8)) (n mod 8)"
proof (induction bs arbitrary: n)
  case Nil
  then show ?case by (simp add: of_bytes_def)
next
  case (Cons b bs)
  have f: "of_bytes (b # bs) = (ucast b OR push_bit 8 (of_bytes bs) :: 'a word)"
    by (simp add: of_bytes_def)
  show ?case
  proof (cases "n < 8")
    case True
    then show ?thesis
      by (auto simp add: f bit_simps dest: bit_imp_le_length)
  next
    case False
    then obtain k where k: "n = 8 + k" by (metis add_diff_inverse_nat)
    have "(n - 8) div 8 = n div 8 - 1" "(n - 8) mod 8 = n mod 8" "0 < n div 8"
      unfolding k by simp_all
    with False show ?thesis
      by (cases "n div 8") (auto simp add: f bit_simps Cons.IH dest: bit_imp_le_length)
  qed
qed

lemma of_bytes_to_bytes:
  fixes V :: "'a::len word"
  assumes "8 dvd LENGTH('a)"
  shows "of_bytes (to_bytes V) = V"
proof (rule bit_word_eqI)
  fix n assume n: "n < LENGTH('a)"
  from assms have "n div 8 < LENGTH('a) div 8"
    using n by (metis dvd_mult_div_cancel less_mult_imp_div_less mult.commute)
  moreover have "8 * (n div 8) + n mod 8 = n" by simp
  ultimately show "bit (of_bytes (to_bytes V) :: 'a word) n = bit V n"
    using n by (simp add: bit_of_bytes to_bytes_def bit_simps)
qed

lemma to_bytes_hd: "sizeof V = 1 \<Longrightarrow> hd (to_bytes V) = ucast V"
  by (simp add: to_bytes_def sizeof_def)

lemma c_assign_id: "\<not> (T = Floating \<and> fp_issnan V) \<Longrightarrow> c_assign T V = V"
  by (cases T) (simp_all add: c_assign_def fp_quiet_def)

lemma fill_c_small:
  assumes "c_assign T V = V" "0 \<le> Len" "Len < 2 ^ 32"
  shows "fill_c T V pa Len m = fill_c_bytes (to_bytes V) pa (nat Len) m"
  using assms by (simp add: fill_c_def fill_c_bytes_def to_bytes_hd unsigned32_id Let_def split: prod.splits)

lemma c_div_nonneg: "0 \<le> x \<Longrightarrow> 0 < y \<Longrightarrow> c_div x y = x div y"
  by (cases "x = 0") (simp_all add: c_div_def)

lemma fill_sse_small:
  fixes V :: "'a::len word"
  assumes c: "c_assign T V = V" and big: "32 < Len * int (sizeof V)" and small: "Len * int (sizeof V) < 2 ^ 31"
  shows "fill_sse T CpuInfo V pa Len m = fill_sse_bytes CpuInfo (to_bytes V) pa (nat Len) m"
proof -
  define L where "L = Len * int (sizeof V)"
  define d where "d = pa mod 32"
  have Len: "0 \<le> Len"
  proof (rule ccontr)
    assume "\<not> 0 \<le> Len"
    then have "Len * int (sizeof V) \<le> 0" by (simp add: mult_le_0_iff)
    with big show False by simp
  qed
  have d: "d < 32" by (simp add: d_def)
  have L: "32 < L" "L < 2 ^ 31" using big small by (simp_all add: L_def)
  have nL: "nat Len * sizeof V = nat L"
    using Len by (simp add: L_def nat_mult_distrib)
  have j1: "jint L = L" using L by (intro jint_id) simp_all
  have j2: "jint (L - int (32 - d)) = L - int (32 - d)" using L d by (intro jint_id) simp_all
  define R where "R = (if d \<noteq> 0 then L - int (32 - d) else L)"
  have R: "0 \<le> R" "R < 2 ^ 31" using L d by (auto simp add: R_def)
  have Rn: "int (if d \<noteq> 0 then nat L - (32 - d) else nat L) = R"
    using L d by (auto simp add: R_def)
  define Rn where "Rn = (if d \<noteq> 0 then nat L - (32 - d) else nat L)"
  have RR: "R = int Rn" using Rn by (simp add: Rn_def)
  have a15: "nat (R AND 15) = Rn AND 15"
    unfolding RR by (metis nat_int of_nat_and_eq of_nat_numeral)
  have q: "c_div R 16 = int (Rn div 16)"
    using R by (simp add: c_div_nonneg RR zdiv_int)
  have u: "unsigned32 (int (Rn div 16)) = int (Rn div 16)"
    using R by (intro unsigned32_id) (simp_all add: RR zdiv_int [symmetric])
  have d3: "nat (drop_bit 3 (int (Rn div 16))) = drop_bit 3 (Rn div 16)"
    by (simp add: drop_bit_eq_div zdiv_int [symmetric] nat_div_distrib)
  have a7: "nat (int (Rn div 16) AND 7) = Rn div 16 AND 7"
    by (metis nat_int of_nat_and_eq of_nat_numeral)
  have t: "(if pa AND 31 \<noteq> 0
        then (32 - (pa AND 31), (32 - (pa AND 31)) AND 15, jint (jint (Len * int (sizeof V)) - int (32 - (pa AND 31))))
        else (0, 0, jint (Len * int (sizeof V)))) =
      (if d \<noteq> 0 then 32 - d else 0, if d \<noteq> 0 then (32 - d) AND 15 else 0, R)"
    using j1 j2 by (simp add: and_consts_nat d_def [symmetric] L_def [symmetric] R_def)
  have t': "(if pa AND 31 \<noteq> 0
        then (32 - (pa AND 31), (32 - (pa AND 31)) AND 15, nat Len * length (to_bytes V) - (32 - (pa AND 31)))
        else (0, 0, nat Len * length (to_bytes V))) =
      (if d \<noteq> 0 then 32 - d else 0, if d \<noteq> 0 then (32 - d) AND 15 else 0, Rn)"
    by (simp add: and_consts_nat d_def [symmetric] nL Rn_def)
  show ?thesis
    unfolding fill_sse_def fill_sse_bytes_def Let_def c
    unfolding t t' prod.case
    unfolding q u d3 a7 a15 length_to_bytes
    by (rule refl)
qed

lemma sizeof_cases:
  fixes V :: "'a::len word"
  assumes "LENGTH('a) \<in> {8, 16, 32, 64}"
  shows "int (sizeof V) \<in> {1, 2, 4, 8}" "0 < sizeof V" "8 dvd LENGTH('a)"
  using assms by (auto simp add: sizeof_def)

lemma Arrays_fill_pattern:
  fixes V :: "'a::len word"
  assumes len: "LENGTH('a) \<in> {8, 16, 32, 64}" and c: "c_assign T V = V"
    and Len: "0 \<le> Len" "Len * int (sizeof V) < 2 ^ 31"
  shows "snd (Arrays_fill T CpuInfo a BeginIndex Len V m) =
     pattern_store (to_bytes V) (nat (int a + BeginIndex * int (sizeof V)))
       (nat (int a + BeginIndex * int (sizeof V))) (nat Len * sizeof V) m"
proof -
  note s = sizeof_cases(1,2)[OF len, of V] sizeof_cases(3)[OF len]
  have sz: "int (length (to_bytes V)) \<in> {1, 2, 4, 8}" using s(1) by simp
  have L: "Len < 2 ^ 32"
  proof -
    have "Len * 1 \<le> Len * int (sizeof V)" using Len(1) s(2) by (intro mult_left_mono) simp_all
    with Len(2) show ?thesis by simp
  qed
  have u: "unsigned32 (Len * int (sizeof V)) = Len * int (sizeof V)"
    using Len by (intro unsigned32_id) simp_all
  have 1: "fill_c T V pa Len m = pattern_store (to_bytes V) pa pa (nat Len * sizeof V) m" for pa
    using fill_c_small[OF c Len(1) L] fill_c_pattern[OF sz] by simp
  have 2: "fill_sse T CpuInfo V pa Len m = pattern_store (to_bytes V) pa pa (nat Len * sizeof V) m"
    if big: "32 < Len * int (sizeof V)" for pa
  proof -
    have "int 32 < int (nat Len * length (to_bytes V))"
      using big Len(1) by simp
    then have "32 < nat Len * length (to_bytes V)" by (simp only: of_nat_less_iff)
    from fill_sse_pattern[OF sz this] fill_sse_small[OF c big Len(2)] show ?thesis by simp
  qed
  show ?thesis
    unfolding Arrays_fill_def Let_def u by (simp add: 1 2)
qed

lemma load_elem_pattern:
  fixes V :: "'a::len word"
  assumes len: "LENGTH('a) \<in> {8, 16, 32, 64}" and i: "B \<le> i" "i < B + n"
  shows "load_elem (pattern_store (to_bytes V) (a + B * sizeof V) (a + B * sizeof V) (n * sizeof V) m)
           (a + i * sizeof V) = V"
proof -
  note s = sizeof_cases(1,2)[OF len, of V] sizeof_cases(3)[OF len]
  have "0 < length (to_bytes V)" using s(2) by simp
  from load_pattern_store[OF this i, of a m] show ?thesis
    by (simp add: load_elem_def of_bytes_to_bytes[OF s(3)] sizeof_def)
qed

lemma snan_example:
  "fp_quiet (0x7FF0000000000001 :: 64 word) = 0x7FF8000000000001"
  by (simp add: fp_quiet_def fp_issnan_def fp_isnan_def fp_infinity_def fp_abs_def
      fp_fraction_bits_def mask_eq_exp_minus_1)

section \<open>What copyBytes writes\<close>

lemma memmove_apply:
  "memmove m dst src n x = (if dst \<le> x \<and> x < dst + n then m (src + (x - dst)) else m x)"
proof (cases "dst \<le> x \<and> x < dst + n")
  case True
  then have "x - dst < n" by auto
  with True show ?thesis by (simp add: memmove_def store_bytes_def load_bytes_def)
next
  case False
  then show ?thesis by (auto simp add: memmove_def store_bytes_def load_bytes_def)
qed

lemma memmove_0 [simp]: "memmove m dst src 0 = m"
  by (auto simp add: memmove_apply fun_eq_iff)

text \<open>A forward copy in two pieces is the move of the whole, when the destination does not start inside the source.\<close>

lemma memmove_append:
  assumes "dst \<le> src \<or> src + (n + k) \<le> dst"
  shows "memmove (memmove m dst src n) (dst + n) (src + n) k = memmove m dst src (n + k)"
  using assms by (auto simp add: memmove_apply fun_eq_iff)

lemma rep_movsb_memmove:
  "dst \<le> src \<or> src + n \<le> dst \<Longrightarrow> rep_movsb src dst n m = memmove m dst src n"
proof (induction n arbitrary: src dst m)
  case 0
  then show ?case by simp
next
  case (Suc n)
  have c: "dst + 1 \<le> src + 1 \<or> src + 1 + n \<le> dst + 1" using Suc.prems by auto
  have "rep_movsb src dst (Suc n) m = rep_movsb (src + 1) (dst + 1) n (m(dst := m src))"
    by simp
  also have "\<dots> = memmove (m(dst := m src)) (dst + 1) (src + 1) n"
    by (rule Suc.IH[OF c])
  also have "m(dst := m src) = memmove m dst src 1"
    by (auto simp add: memmove_apply fun_eq_iff)
  also have "memmove (memmove m dst src 1) (dst + 1) (src + 1) n = memmove m dst src (1 + n)"
    using Suc.prems by (intro memmove_append) auto
  finally show ?case by simp
qed

lemma store16_load:
  "store16 i m p (load_bytes m' q 16) = (\<lambda>x. if p \<le> x \<and> x < p + 16 then m' (q + (x - p)) else m x)"
  by (auto simp add: store16_def store_bytes_def load_bytes_def fun_eq_iff)

lemma copy_pass64_memmove: "copy_pass64 i esi edi m = memmove m edi esi 64"
  unfolding copy_pass64_def Let_def store16_load
  by (auto simp add: memmove_apply fun_eq_iff)

lemma copy_loop64_memmove:
  "edi \<le> esi \<or> esi + 64 * c \<le> edi \<Longrightarrow> copy_loop64 i c esi edi m = memmove m edi esi (64 * c)"
proof (induction c arbitrary: esi edi m)
  case 0
  then show ?case by simp
next
  case (Suc c)
  have c: "edi + 64 \<le> esi + 64 \<or> esi + 64 + 64 * c \<le> edi + 64" using Suc.prems by auto
  have "copy_loop64 i (Suc c) esi edi m = copy_loop64 i c (esi + 64) (edi + 64) (memmove m edi esi 64)"
    by (simp add: copy_pass64_memmove)
  also have "\<dots> = memmove (memmove m edi esi 64) (edi + 64) (esi + 64) (64 * c)"
    by (rule Suc.IH[OF c])
  also have "\<dots> = memmove m edi esi (64 + 64 * c)"
    using Suc.prems by (intro memmove_append) auto
  finally show ?case by simp
qed



lemma copy_sse_memmove:
  assumes ok: "pa \<le> pb \<or> pb + nat Len \<le> pa" and Len: "0 \<le> Len" "Len < 2 ^ 32"
  shows "copy_sse CpuInfo pb pa Len m = memmove m pa pb (nat Len)"
proof -
  obtain lenStart len lenEnd where
    eq: "LOOP_PREFIX_ALIGNED 64 1 (int pa) Len = (lenStart, len, lenEnd)"
    by (metis prod_cases3)
  note s = LOOP_PREFIX_ALIGNED_sound[OF _ _ Len(1) eq, simplified]
  define h where "h = nat lenStart"
  define c where "c = nat len"
  define t where "t = nat lenEnd"
  have "int (h + 64 * c + t) = lenStart + len * 64 + lenEnd"
    using s(2,3,4) by (simp add: h_def c_def t_def)
  then have sum: "h + 64 * c + t = nat Len" using s(5) by linarith
  have u: "unsigned32 lenStart = lenStart" "unsigned32 len = len" "unsigned32 lenEnd = lenEnd"
    using s(2,3,4,5) Len(2) by (auto intro!: unsigned32_id)
  have body: "(case copy_store_choice CpuInfo c (pb + h) (pa + h) of None \<Rightarrow> M
        | Some i \<Rightarrow> copy_loop64 i c (pb + h) (pa + h) M) = memmove M (pa + h) (pb + h) (64 * c)" for M
  proof (cases "copy_store_choice CpuInfo c (pb + h) (pa + h)")
    case None
    then have "c = 0" by (simp add: copy_store_choice_def Let_def split: if_splits)
    with None show ?thesis by simp
  next
    case (Some i)
    have "pa + h \<le> pb + h \<or> pb + h + 64 * c \<le> pa + h" using ok sum by auto
    from copy_loop64_memmove[OF this] Some show ?thesis by simp
  qed
  have "copy_sse CpuInfo pb pa Len m =
      rep_movsb (pb + h + 64 * c) (pa + h + 64 * c) t
        (case copy_store_choice CpuInfo c (pb + h) (pa + h) of None \<Rightarrow> rep_movsb pb pa h m
         | Some i \<Rightarrow> copy_loop64 i c (pb + h) (pa + h) (rep_movsb pb pa h m))"
    unfolding copy_sse_def eq Let_def prod.case u h_def c_def t_def by (rule refl)
  also have "\<dots> = memmove (memmove (memmove m pa pb h) (pa + h) (pb + h) (64 * c))
        (pa + h + 64 * c) (pb + h + 64 * c) t"
  proof -
    have 1: "rep_movsb pb pa h m = memmove m pa pb h"
      using ok sum by (intro rep_movsb_memmove) auto
    have 3: "rep_movsb (pb + h + 64 * c) (pa + h + 64 * c) t M =
        memmove M (pa + h + 64 * c) (pb + h + 64 * c) t" for M
      using ok sum by (intro rep_movsb_memmove) auto
    show ?thesis unfolding 1 body 3 by (rule refl)
  qed
  also have "\<dots> = memmove (memmove m pa pb (h + 64 * c)) (pa + (h + 64 * c)) (pb + (h + 64 * c)) t"
    using ok sum by (subst memmove_append) (auto simp add: add.assoc)
  also have "\<dots> = memmove m pa pb (h + 64 * c + t)"
    using ok sum by (intro memmove_append) auto
  finally show ?thesis using sum by simp
qed

text \<open>
  What \<open>copyBytes\<close> leaves in memory when the destination does not start inside the
  source range above its start.
\<close>

lemma copyBytes_memmove:
  assumes "a \<noteq> 0" "b \<noteq> 0" "0 \<le> Aofs" "0 \<le> Bofs" "0 \<le> Len" "Len < 2 ^ 31"
    and "int b + Bofs \<le> int a + Aofs \<or> int a + Aofs + Len \<le> int b + Bofs"
  shows "\<exists>br. copyBytes CpuInfo a Aofs b Bofs Len m =
     Inr (br, memmove m (nat (int b + Bofs)) (nat (int a + Aofs)) (nat Len))"
proof -
  have ok: "nat (int b + Bofs) \<le> nat (int a + Aofs) \<or> nat (int a + Aofs) + nat Len \<le> nat (int b + Bofs)"
    using assms by linarith
  have L: "Len < 2 ^ 32" using assms(6) by simp
  show ?thesis
    using copy_sse_memmove[OF ok assms(5) L] unsigned32_id[OF assms(5) L] assms(1,2)
    by (simp add: copyBytes_def PAIR_PREFIX_def)
qed
section \<open>Dispatch and thresholds\<close>

lemma PAIR_PREFIX_pinned: "a \<noteq> 0 \<Longrightarrow> b \<noteq> 0 \<Longrightarrow> PAIR_PREFIX a b body = Inr (body a b)"
  by (simp add: PAIR_PREFIX_def)


lemma SSE_descriptor: "(CPU_SSE :: 64 word) \<noteq> 0"
  by (simp add: cpu_flag_defs)

lemma copy_sse_short: "copy_sse CpuInfo 4096 4097 2 m = rep_movsb 4096 4097 (Suc (Suc 0)) m"
proof -
  have l: "LOOP_PREFIX_ALIGNED 64 1 4097 2 = (0, 0, 2)"
    by (simp add: LOOP_PREFIX_ALIGNED_def and_consts Let_def)
  show ?thesis
    by (simp add: copy_sse_def l Let_def copy_store_choice_def unsigned32_def numeral_2_eq_2)
qed




lemma kernels_have_MMXEX:
  "M \<in> set byte_kernels \<Longrightarrow> MINMAX_MMXEX M \<noteq> None"
  "M' \<in> set short_kernels \<Longrightarrow> MINMAX_MMXEX M' \<noteq> None"
  by (auto simp add: byte_kernels_def short_kernels_def min_jbyte_def max_jbyte_def
      min_jshort_def max_jshort_def minu_short_def maxu_short_def)

text \<open>
  Claim C6.  Every descriptor that \<open>_cpuInfo\<close> returns, on the first call of a process or on
  a later one, satisfies the downgrade invariant: CPU_CMOV set implies CPU_FPU set, CPU_SSE
  or CPU_SSE2 set implies CPU_MMX set, CPU_SSE2 set implies CPU_SSE set, and CPU_3DNOWEX set
  implies CPU_3DNOW set.
\<close>

theorem probe_downgrade_invariant:
  "d \<in> set (cpuInfo_calls hs probe_state0) \<Longrightarrow> downgrade_invariant d"
  using cpuInfo_calls_fresh[of d hs] cpuInfo_fresh_invariant by auto

theorem probe_downgrade_invariant_witness:
  "(0xD81820080783F9FF :: 64 word) \<in> set (cpuInfo_calls [amd_host, amd_host] probe_state0) \<and>
   (0xD81820080783F9FF :: 64 word) AND CPU_CMOV \<noteq> 0 \<and>
   (0xD81820080783F9FF :: 64 word) AND CPU_FPU \<noteq> 0 \<and>
   (0xD81820080783F9FF :: 64 word) AND CPU_SSE \<noteq> 0 \<and>
   (0xD81820080783F9FF :: 64 word) AND CPU_SSE2 \<noteq> 0 \<and>
   (0xD81820080783F9FF :: 64 word) AND CPU_MMX \<noteq> 0 \<and>
   (0xD81820080783F9FF :: 64 word) AND CPU_3DNOWEX \<noteq> 0 \<and>
   (0xD81820080783F9FF :: 64 word) AND CPU_3DNOW \<noteq> 0 \<and>
   downgrade_invariant 0xD81820080783F9FF"
proof -
  have m: "(0xD81820080783F9FF :: 64 word) \<in> set (cpuInfo_calls [amd_host, amd_host] probe_state0)"
    unfolding cpuInfo_calls_twice cpuInfo_fresh_amd_host by simp
  from probe_downgrade_invariant[OF m] m show ?thesis
    by (simp add: cpu_flag_defs)
qed

text \<open>
  Claim C8, as amended.  For an element size of 1, 2, 4 or 8 bytes, \<open>UNLOOPING\<close> 32 or 64
  and \<open>Len \<ge> 0\<close>, the head length, the number of body passes and the tail length that
  \<open>LOOP_PREFIX_ALIGNED\<close> computes are non-negative and add up to exactly \<open>Len\<close> elements (a
  body pass covers \<open>UNLOOPING/sizeof\<close> elements); when the head is not empty the body
  starts on a 32-byte boundary; and the head is empty exactly when the pointer is already
  32-byte aligned, or is not a multiple of the element size, or \<open>Len\<close> is shorter than the
  head that would reach the boundary.
\<close>

theorem LOOP_PREFIX_ALIGNED_partition:
  assumes "sz \<in> {1, 2, 4, 8}" and "U \<in> {32, 64}" and "0 \<le> Len"
    and "LOOP_PREFIX_ALIGNED U sz pa Len = (lenStart, len, lenEnd)"
  shows "0 \<le> lenStart \<and> 0 \<le> len \<and> 0 \<le> lenEnd \<and>
         lenStart + len * (U div sz) + lenEnd = Len \<and>
         (lenStart \<noteq> 0 \<longrightarrow> (pa + lenStart * sz) mod 32 = 0) \<and>
         (lenStart = 0 \<longleftrightarrow>
            pa mod 32 = 0 \<or> pa mod sz \<noteq> 0 \<or> Len < (32 - pa mod 32) div sz)"
  using LOOP_PREFIX_ALIGNED_sound[OF assms] head_len_aligned[OF assms(1), of pa Len]
    head_len_zero_iff[OF assms(1), of pa Len]
  by simp

theorem LOOP_PREFIX_ALIGNED_partition_witness:
  "(1::int) \<in> {1, 2, 4, 8} \<and> (64::int) \<in> {32, 64} \<and> (0::int) \<le> 200 \<and>
   LOOP_PREFIX_ALIGNED 64 1 4097 200 = (31, 1, 105) \<and>
   (31::int) + 1 * (64 div 1) + 105 = 200 \<and> (4097 + 31 * 1) mod 32 = (0::int)"
proof -
  have e: "LOOP_PREFIX_ALIGNED 64 1 4097 200 = (31, 1, 105)"
    by (simp add: LOOP_PREFIX_ALIGNED_def and_consts Let_def)
  from LOOP_PREFIX_ALIGNED_partition[OF _ _ _ e] e show ?thesis by simp
qed

text \<open>
  Claim C8 as stated fails: a request of 5 bytes is shorter than one body unit of 64
  bytes, and at an address one byte below a 32-byte boundary its head is 1, not 0.
\<close>

theorem LOOP_PREFIX_ALIGNED_short_counterexample:
  "\<not> ((5::int) < 64 div 1 \<longrightarrow> fst (LOOP_PREFIX_ALIGNED 64 1 4127 5) = 0)"
  by (simp add: LOOP_PREFIX_ALIGNED_def and_consts Let_def)

section \<open>Claims about fill\<close>

text \<open>
  Claim C2, as amended.  For every capability descriptor, every element type of 1, 2, 4 or
  8 bytes and every fill value \<open>V\<close> other than a signalling NaN of a floating point type, and
  for every range \<open>[BeginIndex, EndIndex)\<close> with \<open>0 \<le> BeginIndex\<close> of an array that could be
  pinned (\<open>a\<close> is not \<open>NULL\<close>) whose byte length is below \<open>2^31\<close>: \<open>fill\<close> throws nothing, and after
  it a read of every index \<open>i\<close> of the range yields exactly \<open>V\<close>.  (The range of length 0 has
  no index; every other length, below and above the 32 bytes from which the SSE branch is
  taken, is covered.)
\<close>

theorem fill_reads_back:
  fixes V :: "'a::len word"
  assumes "a \<noteq> 0" and "LENGTH('a) \<in> {8, 16, 32, 64}" and "\<not> (T = Floating \<and> fp_issnan V)"
    and "0 \<le> BeginIndex" and "BeginIndex \<le> i" and "i < EndIndex"
    and "(EndIndex - BeginIndex) * int (sizeof V) < 2 ^ 31"
  shows "\<exists>br m'. fill T CpuInfo a BeginIndex EndIndex V m = Inr (br, m') \<and>
           load_elem m' (nat (int a + i * int (sizeof V))) = V"
proof -
  note s = sizeof_cases(1,2)[OF assms(2), of V] sizeof_cases(3)[OF assms(2)]
  define Len where "Len = EndIndex - BeginIndex"
  have Len: "0 \<le> Len" "Len * int (sizeof V) < 2 ^ 31"
    using assms(5,6,7) by (simp_all add: Len_def)
  have "Len * 1 \<le> Len * int (sizeof V)" using Len(1) s(2) by (intro mult_left_mono) simp_all
  with Len(2) have "Len < 2 ^ 31" by simp
  with Len(1) have j: "jint (EndIndex - BeginIndex) = Len"
    unfolding Len_def by (intro jint_id) simp_all
  define m' where "m' = snd (Arrays_fill T CpuInfo a BeginIndex Len V m)"
  have f: "fill T CpuInfo a BeginIndex EndIndex V m =
      Inr (fst (Arrays_fill T CpuInfo a BeginIndex Len V m), m')"
    using assms(1) by (simp add: fill_def j SINGLE_PREFIX_def m'_def)
  have p: "nat (int a + x * int (sizeof V)) = a + nat x * sizeof V" if "0 \<le> x" for x
    using that by (simp add: nat_add_distrib nat_mult_distrib)
  have i0: "0 \<le> i" using assms(4,5) by simp
  have "m' = pattern_store (to_bytes V) (a + nat BeginIndex * sizeof V)
       (a + nat BeginIndex * sizeof V) (nat Len * sizeof V) m"
    unfolding m'_def Arrays_fill_pattern[OF assms(2) c_assign_id[OF assms(3)] Len]
    by (simp add: p[OF assms(4)])
  moreover have "nat BeginIndex \<le> nat i" "nat i < nat BeginIndex + nat Len"
    using assms(4,5,6) by (simp_all add: Len_def)
  ultimately have "load_elem m' (a + nat i * sizeof V) = V"
    using load_elem_pattern[OF assms(2), of "nat BeginIndex" "nat i" "nat Len" V a m] by simp
  with f show ?thesis by (simp add: p[OF i0])
qed

theorem fill_reads_back_witness:
  "(4097 :: nat) \<noteq> 0 \<and> LENGTH(8) \<in> {8 :: nat, 16, 32, 64} \<and>
   \<not> (SignedInt = Floating \<and> fp_issnan (0x7F :: 8 word)) \<and>
   (0 :: int) \<le> 0 \<and> (0 :: int) \<le> 33 \<and> (33 :: int) < 34 \<and>
   (34 - 0) * int (sizeof (0x7F :: 8 word)) < 2 ^ 31 \<and>
   fst (projr (fill SignedInt CPU_SSE 4097 0 34 (0x7F :: 8 word) (\<lambda>x. 0))) = SSE_branch \<and>
   load_elem (snd (projr (fill SignedInt CPU_SSE 4097 0 34 (0x7F :: 8 word) (\<lambda>x. 0)))) 4130 =
     (0x7F :: 8 word)"
proof -
  have b: "fst (projr (fill SignedInt CPU_SSE 4097 0 34 (0x7F :: 8 word) (\<lambda>x. 0))) = SSE_branch"
    by (simp add: fill_def SINGLE_PREFIX_def Arrays_fill_def Let_def cpu_flag_defs jint_def
        unsigned32_def sizeof_def)
  from fill_reads_back[where a = 4097 and V = "0x7F :: 8 word" and T = SignedInt and BeginIndex = 0
      and i = 33 and EndIndex = 34 and CpuInfo = CPU_SSE and m = "\<lambda>x. 0"] b
  show ?thesis by (auto simp add: sizeof_def)
qed


text \<open>
  Claim C2 as stated fails for a fill value that is a signalling NaN: \<open>fill\<close> of one \<open>jdouble\<close>
  with the bit pattern \<open>0x7FF0000000000001\<close> under descriptor 0 takes the C branch, whose
  assignment \<open>*pa= V\<close> stores the quiet NaN \<open>0x7FF8000000000001\<close>, and that is what the read
  yields.
\<close>

theorem fill_signalling_nan_counterexample:
  "fill Floating 0 4096 0 1 (0x7FF0000000000001 :: 64 word) (\<lambda>x. 0) =
     Inr (Scalar_branch, snd (projr (fill Floating 0 4096 0 1 (0x7FF0000000000001 :: 64 word) (\<lambda>x. 0)))) \<and>
   load_elem (snd (projr (fill Floating 0 4096 0 1 (0x7FF0000000000001 :: 64 word) (\<lambda>x. 0)))) 4096 =
     (0x7FF8000000000001 :: 64 word) \<and>
   \<not> (load_elem (snd (projr (fill Floating 0 4096 0 1 (0x7FF0000000000001 :: 64 word) (\<lambda>x. 0)))) 4096 =
     (0x7FF0000000000001 :: 64 word))"
proof -
  have l: "LOOP_PREFIX 64 8 1 = (0, 1)" by (simp add: LOOP_PREFIX_def Let_def and_consts)
  have f: "fill Floating 0 4096 0 1 (0x7FF0000000000001 :: 64 word) (\<lambda>x. 0) =
      Inr (Scalar_branch, store_bytes (\<lambda>x. 0) 4096 (to_bytes (0x7FF8000000000001 :: 64 word)))"
    by (simp add: fill_def SINGLE_PREFIX_def Arrays_fill_def Let_def jint_def fill_c_def sizeof_def l
        c_assign_def snan_example)
  have "load_bytes (store_bytes (\<lambda>x. 0) 4096 (to_bytes (0x7FF8000000000001 :: 64 word))) 4096 8 =
      to_bytes (0x7FF8000000000001 :: 64 word)"
    by (rule nth_equalityI) (simp_all add: load_bytes_def store_bytes_def sizeof_def)
  then have "load_elem (store_bytes (\<lambda>x. 0) 4096 (to_bytes (0x7FF8000000000001 :: 64 word))) 4096 =
      (0x7FF8000000000001 :: 64 word)"
    by (simp add: load_elem_def of_bytes_to_bytes)
  with f show ?thesis by simp
qed
section \<open>Claims about copyBytes\<close>

text \<open>
  Claim C3.  The claim asks that \<open>copyBytes\<close> leave in the destination range the bytes the
  source range held before the call, also when the two ranges overlap.  Under a descriptor
  with \<open>CPU_SSE\<close> the function does not: called with one array at address 4096 as source and
  destination, \<open>Aofs = 0\<close>, \<open>Bofs = 1\<close> and \<open>Len = 2\<close>, on memory whose byte at address \<open>x\<close> is
  \<open>x mod 256\<close>, the SSE branch copies upwards byte by byte and leaves 0, 0, 0 at the addresses
  4096 to 4098, where \<open>memmove\<close>, which the branch for descriptor 0 calls, leaves 0, 0, 1.
\<close>

theorem copyBytes_overlap_forward:
  "copyBytes CPU_SSE 4096 0 4096 1 2 (\<lambda>x. of_nat x) =
     Inr (SSE_branch, snd (projr (copyBytes CPU_SSE 4096 0 4096 1 2 (\<lambda>x. of_nat x)))) \<and>
   map (snd (projr (copyBytes CPU_SSE 4096 0 4096 1 2 (\<lambda>x. of_nat x)))) [4096, 4097, 4098] = [0, 0, 0] \<and>
   map (memmove (\<lambda>x. of_nat x) 4097 4096 2) [4096, 4097, 4098] = [0, 0, 1] \<and>
   copyBytes 0 4096 0 4096 1 2 (\<lambda>x. of_nat x) =
     Inr (Scalar_branch, memmove (\<lambda>x. of_nat x) 4097 4096 2)"
  by (simp add: copyBytes_def PAIR_PREFIX_def copy_sse_short SSE_descriptor memmove_apply
      unsigned32_def)

section \<open>Claims about the choice of the store instruction\<close>




section \<open>Claims about the probe and the dispatch\<close>



text \<open>
  Claim C10.  Every descriptor that \<open>_cpuInfo\<close> returns with \<open>CPU_SSE\<close> set has \<open>CPU_MMXEX\<close> set,
  whatever the extended leaves of \<open>cpuid\<close> reported; so under it \<open>min\<close>, \<open>max\<close>, \<open>minu\<close> and \<open>maxu\<close>
  on \<open>jbyte\<close> and 16-bit arrays, the functions that define \<open>MINMAX_MMXEX\<close>, take the MMXEX
  branch.
\<close>

theorem sse_implies_mmxex:
  assumes "d \<in> set (cpuInfo_calls hs probe_state0)" and "d AND CPU_SSE \<noteq> 0"
  shows "d AND CPU_MMXEX \<noteq> 0 \<and>
    (a \<noteq> 0 \<and> b \<noteq> 0 \<longrightarrow>
      (\<forall>M \<in> set byte_kernels. \<exists>m'. minmax_int M d a Aofs b Bofs Len m8 = Inr (MMXEX_branch, m')) \<and>
      (\<forall>M \<in> set short_kernels. \<exists>m'. minmax_int M d a Aofs b Bofs Len m16 = Inr (MMXEX_branch, m')))"
proof -
  from cpuInfo_calls_fresh[OF assms(1)] obtain h where "d = cpuInfo_fresh h" by blast
  with assms(2) have m: "d AND CPU_MMXEX \<noteq> 0" by (simp add: cpuInfo_fresh_mmxex)
  then show ?thesis
    by (simp add: minmax_int_def PAIR_PREFIX_pinned Arrays_minmax_int_def kernels_have_MMXEX)
qed

theorem sse_implies_mmxex_witness:
  "(0x101808100383F9FF :: 64 word) \<in> set (cpuInfo_calls [intel_host] probe_state0) \<and>
   (0x101808100383F9FF :: 64 word) AND CPU_SSE \<noteq> 0 \<and>
   (0x101808100383F9FF :: 64 word) AND CPU_MMXEX \<noteq> 0 \<and>
   (4096 :: nat) \<noteq> 0 \<and> (8192 :: nat) \<noteq> 0 \<and>
   min_jbyte \<in> set byte_kernels \<and>
   fst (projr (minmax_int min_jbyte 0x101808100383F9FF 4096 0 8192 0 100 (\<lambda>x. 0))) = MMXEX_branch \<and>
   maxu_short \<in> set short_kernels \<and>
   fst (projr (minmax_int maxu_short 0x101808100383F9FF 4096 0 8192 0 100 (\<lambda>x. 0))) = MMXEX_branch"
proof -
  have a: "(0x101808100383F9FF :: 64 word) \<in> set (cpuInfo_calls [intel_host] probe_state0)"
    by (simp add: cpuInfo_def probe_state0_def Let_def cpuInfo_fresh_intel_host)
  have b: "(0x101808100383F9FF :: 64 word) AND CPU_SSE \<noteq> 0"
    by (simp add: cpu_flag_defs)
  have c: "min_jbyte \<in> set byte_kernels" "maxu_short \<in> set short_kernels"
    by (simp_all add: byte_kernels_def short_kernels_def)
  from sse_implies_mmxex[OF a b, where a = 4096 and b = 8192 and Aofs = 0 and Bofs = 0 and Len = 100
      and ?m8.0 = "\<lambda>x. 0" and ?m16.0 = "\<lambda>x. 0"] a b c
  show ?thesis by fastforce
qed

end
